theory Spec2Isabelle
  imports Main "HOL-Library.Sublist"
begin

section \<open>The file tree the installer works on\<close>

text \<open>
  \<^verbatim>\<open>setup-nvim.ts\<close> touches the outside world through \<^verbatim>\<open>exists\<close>, \<^verbatim>\<open>ensureDir\<close>,
  \<^verbatim>\<open>Deno.remove\<close>, \<^verbatim>\<open>Deno.rename\<close>, \<^verbatim>\<open>Deno.writeTextFile\<close>, \<^verbatim>\<open>Deno.cwd\<close>,
  \<^verbatim>\<open>Deno.env.get\<close>, \<^verbatim>\<open>Deno.Command\<close> and the console. The file tree is a tree of named
  entries below one root directory: a regular file carries its text, a directory maps the
  names of its children to their trees. A path is the list of its components, the root
  being the empty list.
\<close>

type_synonym path = "string list"

datatype node = File string | Dir "string \<Rightarrow> node option"

fun resolve :: "node \<Rightarrow> path \<Rightarrow> node option" where
  "resolve n [] = Some n"
| "resolve (File s) (c # p) = None"
| "resolve (Dir d) (c # p) = (case d c of None \<Rightarrow> None | Some m \<Rightarrow> resolve m p)"

fun is_dir :: "node option \<Rightarrow> bool" where
  "is_dir (Some (Dir d)) = True"
| "is_dir _ = False"

fun is_file :: "node option \<Rightarrow> bool" where
  "is_file (Some (File s)) = True"
| "is_file _ = False"

text \<open>
  \<open>graft p v n\<close> replaces the entry at \<open>p\<close> by \<open>v\<close> (\<open>None\<close> unlinks it) when the parent
  of \<open>p\<close> is a directory of \<open>n\<close>, and leaves \<open>n\<close> as it is otherwise. The root itself is
  never unlinked.
\<close>

fun graft :: "path \<Rightarrow> node option \<Rightarrow> node \<Rightarrow> node" where
  "graft [] v n = (case v of None \<Rightarrow> n | Some m \<Rightarrow> m)"
| "graft (c # p) v (File s) = File s"
| "graft (c # p) v (Dir d) =
     (if p = [] then Dir (d(c := v))
      else (case d c of None \<Rightarrow> Dir d | Some m \<Rightarrow> Dir (d(c \<mapsto> graft p v m))))"

text \<open>
  \<open>mkdirp p n\<close> is \<^verbatim>\<open>mkdir -p\<close>: every missing directory along \<open>p\<close> is created, existing
  directories are kept with their contents, and a regular file on the way is a failure.
\<close>

fun mkdirp :: "path \<Rightarrow> node \<Rightarrow> node option" where
  "mkdirp [] (File s) = None"
| "mkdirp [] (Dir d) = Some (Dir d)"
| "mkdirp (c # p) (File s) = None"
| "mkdirp (c # p) (Dir d) =
     (case mkdirp p (case d c of None \<Rightarrow> Dir Map.empty | Some m \<Rightarrow> m) of
        None \<Rightarrow> None
      | Some m' \<Rightarrow> Some (Dir (d(c \<mapsto> m'))))"


section \<open>Errors, the host and the world\<close>

text \<open>
  A thrown value is either the script's own \<^verbatim>\<open>new Error(msg)\<close> or an I/O error of the
  runtime, kept with the path it is about. \<open>message\<close> is the \<^verbatim>\<open>.message\<close> the top-level
  handler prints; for the runtime's errors the text is not part of the source and is
  represented by the error's class name followed by the path.
\<close>

datatype error =
    Error string
  | NotFound path
  | NotADirectory path
  | IsADirectory path
  | AlreadyExists path
  | InvalidArgument path
  | PermissionDenied path

definition show_path :: "path \<Rightarrow> string" where
  "show_path p = (if p = [] then ''/'' else concat (map (\<lambda>c. CHR ''/'' # c) p))"

fun message :: "error \<Rightarrow> string" where
  "message (Error m) = m"
| "message (NotFound p) = ''NotFound: '' @ show_path p"
| "message (NotADirectory p) = ''NotADirectory: '' @ show_path p"
| "message (IsADirectory p) = ''IsADirectory: '' @ show_path p"
| "message (AlreadyExists p) = ''AlreadyExists: '' @ show_path p"
| "message (InvalidArgument p) = ''InvalidArgument: '' @ show_path p"
| "message (PermissionDenied p) = ''PermissionDenied: '' @ show_path p"

text \<open>
  What \<^verbatim>\<open>new Deno.Command(exe, {args}).output()\<close> does: it throws when the executable
  cannot be launched, and otherwise reports whether the exit was successful.
\<close>

datatype probe = Unlaunchable | Exited bool

text \<open>
  The host is what one run cannot change: the environment variables, the outcome of
  launching a command, the paths on which the operating system refuses a mutation
  (permissions, a full disk), and \<open>literal\<close>, the text that the source writes out in
  full for each generated file (the Lua and TypeScript payload), which stays
  uninterpreted here and is looked up by the file's name.
\<close>

record host =
  getenv :: "string \<Rightarrow> string option"
  command :: "string \<Rightarrow> string list \<Rightarrow> probe"
  denied :: "path \<Rightarrow> bool"
  literal :: "string \<Rightarrow> string"

text \<open>
  The world is what a run changes: the file tree, the working directory of the process
  (which follows a rename of a directory above it and is \<open>None\<close> once that directory has
  been removed), and the lines sent to \<^verbatim>\<open>console.log\<close> and \<^verbatim>\<open>console.error\<close>, one
  element per call.
\<close>

record world =
  root :: node
  cwd :: "path option"
  out :: "string list"
  err :: "string list"

type_synonym action = "world \<Rightarrow> error option \<times> world"

definition seq :: "action \<Rightarrow> action \<Rightarrow> action" where
  "seq f g w = (case f w of (None, w') \<Rightarrow> g w' | (Some e, w') \<Rightarrow> (Some e, w'))"

definition skip :: action where
  "skip w = (None, w)"

definition throw :: "error \<Rightarrow> action" where
  "throw e w = (Some e, w)"

definition log :: "string \<Rightarrow> action" where
  "log s w = (None, w\<lparr>out := out w @ [s]\<rparr>)"

subsection \<open>The runtime calls\<close>

definition exists :: "path \<Rightarrow> world \<Rightarrow> bool" where
  "exists p w = (resolve (root w) p \<noteq> None)"

definition ensureDir :: "host \<Rightarrow> path \<Rightarrow> action" where
  "ensureDir h p w =
     (case resolve (root w) p of
        Some (Dir d) \<Rightarrow> (None, w)
      | Some (File s) \<Rightarrow> (Some (NotADirectory p), w)
      | None \<Rightarrow>
          (if denied h p then (Some (PermissionDenied p), w)
           else (case mkdirp p (root w) of
                   None \<Rightarrow> (Some (NotADirectory p), w)
                 | Some r \<Rightarrow> (None, w\<lparr>root := r\<rparr>))))"

definition writeTextFile :: "host \<Rightarrow> path \<Rightarrow> string \<Rightarrow> action" where
  "writeTextFile h p txt w =
     (if denied h p then (Some (PermissionDenied p), w)
      else if p = [] \<or> is_dir (resolve (root w) p) then (Some (IsADirectory p), w)
      else (case resolve (root w) (butlast p) of
              None \<Rightarrow> (Some (NotFound p), w)
            | Some (File s) \<Rightarrow> (Some (NotADirectory p), w)
            | Some (Dir d) \<Rightarrow> (None, w\<lparr>root := graft p (Some (File txt)) (root w)\<rparr>)))"

definition remove_recursive :: "host \<Rightarrow> path \<Rightarrow> action" where
  "remove_recursive h p w =
     (if denied h p \<or> p = [] then (Some (PermissionDenied p), w)
      else if resolve (root w) p = None then (Some (NotFound p), w)
      else (None, w\<lparr>root := graft p None (root w),
                     cwd := (case cwd w of
                               None \<Rightarrow> None
                             | Some c \<Rightarrow> if prefix p c then None else Some c)\<rparr>))"

text \<open>
  \<^verbatim>\<open>Deno.rename\<close> moves the whole subtree. A destination that is already there is
  replaced only when both ends are regular files; the script never reaches the other
  cases of the system call, since it renames right after the destination was found absent
  or was removed.
\<close>

definition rename :: "host \<Rightarrow> path \<Rightarrow> path \<Rightarrow> action" where
  "rename h src dst w =
     (if denied h src \<or> denied h dst \<or> src = [] \<or> dst = [] then (Some (PermissionDenied src), w)
      else (case resolve (root w) src of
              None \<Rightarrow> (Some (NotFound src), w)
            | Some n \<Rightarrow>
                (if src = dst then (None, w)
                 else if prefix src dst then (Some (InvalidArgument dst), w)
                 else if \<not> is_dir (resolve (root w) (butlast dst)) then (Some (NotFound dst), w)
                 else if resolve (root w) dst \<noteq> None
                         \<and> \<not> (is_file (Some n) \<and> is_file (resolve (root w) dst))
                   then (Some (AlreadyExists dst), w)
                 else (None, w\<lparr>root := graft dst (Some n) (graft src None (root w)),
                                cwd := (case cwd w of
                                          None \<Rightarrow> None
                                        | Some c \<Rightarrow>
                                            if prefix src c then Some (dst @ drop (length src) c)
                                            else Some c)\<rparr>))))"

definition deno_cwd :: "world \<Rightarrow> error + path" where
  "deno_cwd w = (case cwd w of None \<Rightarrow> Inl (NotFound []) | Some c \<Rightarrow> Inr c)"

subsection \<open>Path strings\<close>

text \<open>
  \<^verbatim>\<open>join\<close> of the standard library concatenates with \<^verbatim>\<open>/\<close> and normalises: empty and
  \<^verbatim>\<open>.\<close> segments vanish and \<^verbatim>\<open>..\<close> steps to the parent. The base is an absolute path;
  the home directory taken from the environment is read as one (from the root).
\<close>

fun segments :: "string \<Rightarrow> string list" where
  "segments [] = [[]]"
| "segments (ch # s) =
     (if ch = CHR ''/'' then [] # segments s
      else (case segments s of [] \<Rightarrow> [[ch]] | x # xs \<Rightarrow> (ch # x) # xs))"

definition enter :: "path \<Rightarrow> string \<Rightarrow> path" where
  "enter p seg =
     (if seg = [] \<or> seg = ''.'' then p else if seg = ''..'' then butlast p else p @ [seg])"

definition join :: "path \<Rightarrow> string \<Rightarrow> path" where
  "join base rel = foldl enter base (segments rel)"


section \<open>The installer: class NeovimSetup\<close>

text \<open>
  The pictographs that open most console messages of the source are left out of the
  message texts; everything else of a message is kept.
\<close>

record ConfigFile =
  path :: string
  content :: string
  description :: string

text \<open>
  The two private fields of the class, and \<open>sampleSkipped\<close>: whether \<^verbatim>\<open>main\<close> has replaced
  the instance's \<^verbatim>\<open>createSampleDenoProject\<close> by the function that only logs.
\<close>

record NeovimSetup =
  configDir :: path
  backupDir :: path
  sampleSkipped :: bool

definition truthy :: "string option \<Rightarrow> string option" where
  "truthy v = (case v of None \<Rightarrow> None | Some s \<Rightarrow> if s = [] then None else Some s)"

definition joins :: "path \<Rightarrow> string list \<Rightarrow> path" where
  "joins base rels = foldl join base rels"

definition new_NeovimSetup :: "host \<Rightarrow> error + NeovimSetup" where
  "new_NeovimSetup h =
     (let homeDir = (case truthy (getenv h ''HOME'') of
                       Some v \<Rightarrow> Some v
                     | None \<Rightarrow> truthy (getenv h ''USERPROFILE''))
      in case homeDir of
           None \<Rightarrow> Inl (Error ''Could not determine home directory'')
         | Some home \<Rightarrow>
             Inr \<lparr>configDir = joins [] [home, ''.config'', ''nvim''],
                  backupDir = joins [] [home, ''.config'', ''nvim.backup''],
                  sampleSkipped = False\<rparr>)"

text \<open>
  One of the three blocks of \<^verbatim>\<open>checkPrerequisites\<close>: the inner \<^verbatim>\<open>throw\<close> on an
  unsuccessful exit and the launch failure both end in the \<^verbatim>\<open>catch\<close>, which throws the
  message naming the tool.
\<close>

definition checkTool :: "host \<Rightarrow> string \<Rightarrow> string \<Rightarrow> action" where
  "checkTool h exe label =
     (case command h exe [''--version''] of
        Exited True \<Rightarrow> log (label @ '' found'')
      | _ \<Rightarrow> throw (Error (label @ '' is not installed or not in PATH'')))"

definition checkPrerequisites :: "host \<Rightarrow> action" where
  "checkPrerequisites h =
     seq (log ''Checking prerequisites...'')
    (seq (checkTool h ''nvim'' ''Neovim'')
    (seq (checkTool h ''deno'' ''Deno'')
         (checkTool h ''git'' ''Git'')))"

definition backupExistingConfig :: "host \<Rightarrow> NeovimSetup \<Rightarrow> action" where
  "backupExistingConfig h s w =
     (if exists (configDir s) w then
        seq (log ''Backing up existing Neovim configuration...'')
       (seq (\<lambda>w1. if exists (backupDir s) w1
                   then seq (log ''Removing old backup...'')
                            (remove_recursive h (backupDir s)) w1
                   else skip w1)
       (seq (rename h (configDir s) (backupDir s))
            (log (''Existing configuration backed up to: '' @ show_path (backupDir s))))) w
      else skip w)"

definition getConfigFiles :: "host \<Rightarrow> ConfigFile list" where
  "getConfigFiles h =
     [\<lparr>path = ''init.lua'', content = literal h ''init.lua'',
       description = ''Main Neovim configuration''\<rparr>,
      \<lparr>path = ''lua/config/options.lua'', content = literal h ''lua/config/options.lua'',
       description = ''Neovim options and settings''\<rparr>,
      \<lparr>path = ''lua/config/lazy.lua'', content = literal h ''lua/config/lazy.lua'',
       description = ''Lazy plugin manager setup''\<rparr>,
      \<lparr>path = ''lua/config/keymaps.lua'', content = literal h ''lua/config/keymaps.lua'',
       description = ''Key mappings and shortcuts''\<rparr>,
      \<lparr>path = ''lua/plugins/lsp.lua'', content = literal h ''lua/plugins/lsp.lua'',
       description = ''LSP configuration for Deno''\<rparr>,
      \<lparr>path = ''lua/plugins/completion.lua'', content = literal h ''lua/plugins/completion.lua'',
       description = ''Auto-completion setup''\<rparr>,
      \<lparr>path = ''lua/plugins/treesitter.lua'', content = literal h ''lua/plugins/treesitter.lua'',
       description = ''Treesitter syntax highlighting''\<rparr>,
      \<lparr>path = ''lua/plugins/telescope.lua'', content = literal h ''lua/plugins/telescope.lua'',
       description = ''Fuzzy finder and search''\<rparr>,
      \<lparr>path = ''lua/plugins/ui.lua'', content = literal h ''lua/plugins/ui.lua'',
       description = ''UI enhancements and theme''\<rparr>]"

text \<open>
  The body of the loop of \<^verbatim>\<open>createConfigFiles\<close>. \<^verbatim>\<open>fullPath\<close> is the joined, normalised
  path; \<^verbatim>\<open>dir\<close> is its text up to the last \<^verbatim>\<open>/\<close>. Normalisation keeps a trailing \<^verbatim>\<open>/\<close> of
  the relative path: then \<^verbatim>\<open>dir\<close> is the whole normalised path, and the write goes to a
  path that names a directory. Without it \<^verbatim>\<open>dir\<close> is the parent, and is the empty text for
  a path directly below the root, which \<^verbatim>\<open>ensureDir\<close> resolves to a directory that is
  already there.
\<close>

definition trailing_slash :: "string \<Rightarrow> bool" where
  "trailing_slash rel = (rel \<noteq> [] \<and> last rel = CHR ''/'')"

definition writeConfigFile :: "host \<Rightarrow> path \<Rightarrow> ConfigFile \<Rightarrow> action" where
  "writeConfigFile h base cf =
     (let fullPath = join base (path cf) in
      if trailing_slash (path cf)
      then seq (ensureDir h fullPath) (throw (IsADirectory fullPath))
      else seq (ensureDir h (butlast fullPath))
          (seq (writeTextFile h fullPath (content cf))
               (log (''Created: '' @ description cf))))"

fun writeConfigFiles :: "host \<Rightarrow> path \<Rightarrow> ConfigFile list \<Rightarrow> action" where
  "writeConfigFiles h base [] = skip"
| "writeConfigFiles h base (cf # cfs) =
     seq (writeConfigFile h base cf) (writeConfigFiles h base cfs)"

text \<open>
  \<^verbatim>\<open>createConfigFiles\<close> with the list it iterates over as an argument, and the method
  itself, which takes the list from \<^verbatim>\<open>getConfigFiles\<close>.
\<close>

definition createConfigFilesOf :: "host \<Rightarrow> path \<Rightarrow> ConfigFile list \<Rightarrow> action" where
  "createConfigFilesOf h base cfs =
     seq (log ''Creating configuration files...'')
    (seq (writeConfigFiles h base cfs)
    (seq (ensureDir h (join base ''undo''))
         (log ''Created undo directory'')))"

definition createConfigFiles :: "host \<Rightarrow> NeovimSetup \<Rightarrow> action" where
  "createConfigFiles h s = createConfigFilesOf h (configDir s) (getConfigFiles h)"

definition createSampleDenoProject :: "host \<Rightarrow> NeovimSetup \<Rightarrow> action" where
  "createSampleDenoProject h s =
     (if sampleSkipped s then log ''Skipping sample project creation''
      else seq (log ''Creating sample Deno project...'')
        (\<lambda>w. case deno_cwd w of
                Inl e \<Rightarrow> (Some e, w)
              | Inr c \<Rightarrow>
                  (let projectDir = join c ''deno-sample-project'' in
                   seq (ensureDir h projectDir)
                  (seq (writeTextFile h (join projectDir ''deno.json'') (literal h ''deno.json''))
                  (seq (writeTextFile h (join projectDir ''main.ts'') (literal h ''main.ts''))
                  (seq (writeTextFile h (join projectDir ''main_test.ts'') (literal h ''main_test.ts''))
                  (seq (log (''Sample project created at: '' @ show_path projectDir))
                  (seq (log ''   You can test the setup by running:'')
                       (log (''   cd '' @ show_path projectDir @ '' && nvim main.ts'')))))))) w))"


definition nl :: string where
  "nl = [CHR 0x0A]"

fun logs :: "string list \<Rightarrow> action" where
  "logs [] = skip"
| "logs (l # ls) = seq (log l) (logs ls)"

text \<open>
  \<^verbatim>\<open>printUsageInstructions\<close> only writes to the console. The source declares it without
  \<^verbatim>\<open>async\<close> although its body awaits \<^verbatim>\<open>exists\<close>; the model takes the awaited value.
\<close>

definition printUsageInstructions :: "NeovimSetup \<Rightarrow> action" where
  "printUsageInstructions s =
     seq (logs
       [nl @ ''Neovim Deno TypeScript IDE setup complete!'',
        nl @ ''Quick Start Guide:'',
        ''1. Start Neovim: nvim'',
        ''2. Wait for plugins to install automatically'',
        ''3. Open a TypeScript file in a Deno project'',
        nl @ ''Essential Key Bindings:'',
        ''  <Space>     - Leader key'',
        ''  <leader>sf  - Find files'',
        ''  <leader>sg  - Search text in project'',
        ''  <leader>e   - Toggle file explorer'',
        ''  gd          - Go to definition'',
        ''  gr          - Find references'',
        ''  K           - Show hover documentation'',
        ''  <leader>ca  - Code actions'',
        ''  <leader>f   - Format file'',
        ''  <leader>dr  - Run current Deno file'',
        ''  <leader>dt  - Run Deno tests'',
        nl @ ''Deno Project Detection:'',
        ''  IDE features activate automatically in directories with deno.json or deno.jsonc'',
        nl @ ''Try the sample project:'',
        ''  cd deno-sample-project && nvim main.ts''])
    (seq (\<lambda>w. if exists (backupDir s) w
                then log (nl @ ''Your previous configuration was backed up to: ''
                             @ show_path (backupDir s)) w
                else skip w)
         (logs
       [nl @ ''Tips:'',
        ''  - Use :checkhealth to verify everything is working'',
        ''  - The setup automatically detects Deno projects'',
        ''  - All plugins will install on first Neovim launch'',
        ''  - Check ~/.config/nvim/ for the full configuration'']))"

text \<open>
  How the process ends: the module runs to its end (exit status 0), \<^verbatim>\<open>Deno.exit(n)\<close> is
  called, or an error leaves \<^verbatim>\<open>main\<close> uncaught, which the runtime reports itself before
  it ends the process with status 1.
\<close>

datatype outcome = Finished | Exit nat | Uncaught error


text \<open>The \<^verbatim>\<open>try\<close> block of \<^verbatim>\<open>run\<close>, and \<^verbatim>\<open>run\<close> with its \<^verbatim>\<open>catch\<close>.\<close>

definition run_steps :: "host \<Rightarrow> NeovimSetup \<Rightarrow> action" where
  "run_steps h s =
     seq (log ''Neovim Deno TypeScript IDE Auto-Setup'')
    (seq (log (replicate 50 CHR ''=''))
    (seq (checkPrerequisites h)
    (seq (backupExistingConfig h s)
    (seq (ensureDir h (configDir s))
    (seq (createConfigFiles h s)
    (seq (createSampleDenoProject h s)
         (printUsageInstructions s)))))))"

definition run :: "host \<Rightarrow> NeovimSetup \<Rightarrow> world \<Rightarrow> outcome \<times> world" where
  "run h s w =
     (case run_steps h s w of
        (None, w') \<Rightarrow> (Finished, w')
      | (Some e, w') \<Rightarrow> (Exit 1, w'\<lparr>err := err w' @ [''Setup failed: '' @ message e]\<rparr>))"

section \<open>The command line: main\<close>

fun join_lines :: "string list \<Rightarrow> string" where
  "join_lines [] = []"
| "join_lines [l] = l"
| "join_lines (l # ls) = l @ nl @ join_lines ls"

definition usage_lines :: "string list" where
  "usage_lines =
     ['''',
      ''Neovim Deno TypeScript IDE Auto-Setup'',
      '''',
      ''USAGE:'',
      ''    deno run --allow-read --allow-write --allow-run setup-nvim.ts [OPTIONS]'',
      '''',
      ''OPTIONS:'',
      ''    -h, --help          Show this help message'',
      ''    --dry-run           Show what would be done without making changes'',
      ''    --no-sample         Skip creating the sample Deno project'',
      '''',
      ''EXAMPLES:'',
      ''    # Full setup with sample project'',
      ''    deno run --allow-read --allow-write --allow-run setup-nvim.ts'',
      '''',
      ''    # Setup without sample project'',
      ''    deno run --allow-read --allow-write --allow-run setup-nvim.ts --no-sample'',
      '''',
      ''FEATURES:'',
      ''    Complete LSP setup for Deno + TypeScript'',
      ''    Auto-completion with intelligent suggestions'',
      ''    Syntax highlighting and code formatting'',
      ''    File explorer and fuzzy finding'',
      ''    Git integration and status indicators'',
      ''    Automatic Deno project detection'',
      ''    IDE-like navigation and refactoring tools'',
      '''',
      ''REQUIREMENTS:'',
      ''    - Neovim 0.8+ (preferably 0.9+)'',
      ''    - Deno (latest version recommended)'',
      ''    - Git (for plugin management)'',
      ''    '']"

definition usage_text :: string where
  "usage_text = join_lines usage_lines"

definition dry_run_lines :: "string list \<Rightarrow> string list" where
  "dry_run_lines args =
     [''DRY RUN MODE - No changes will be made'',
      nl @ ''This setup would:'',
      ''1. Check for Neovim, Deno, and Git'',
      ''2. Backup existing ~/.config/nvim to ~/.config/nvim.backup'',
      ''3. Create new Neovim configuration with:'',
      ''   - LSP setup for Deno TypeScript'',
      ''   - Auto-completion engine'',
      ''   - File explorer and fuzzy finder'',
      ''   - Syntax highlighting'',
      ''   - Git integration'',
      ''   - Custom keybindings'']
     @ (if \<not> List.member args ''--no-sample''
        then [''4. Create sample Deno project for testing''] else [])"

definition main :: "host \<Rightarrow> string list \<Rightarrow> world \<Rightarrow> outcome \<times> world" where
  "main h args w =
     (if List.member args ''--help'' \<or> List.member args ''-h''
      then (Finished, snd (log usage_text w))
      else if List.member args ''--dry-run''
      then (Finished, snd (logs (dry_run_lines args) w))
      else (case new_NeovimSetup h of
              Inl e \<Rightarrow> (Uncaught e, w)
            | Inr s \<Rightarrow>
                run h (if List.member args ''--no-sample''
                       then s\<lparr>sampleSkipped := True\<rparr> else s) w))"


section \<open>Invariants of actions\<close>

text \<open>
  Notions used to follow a property through a sequence of actions: an action keeps a
  property of the world; the subtree at a path and the working directory have given
  values; a path is clear of everything the sample project writes; the working directory
  is a directory of the tree unless it has been removed; an action is gentle when it
  leaves the working directory alone and keeps every directory a directory. \<open>install_steps\<close>
  is the part of the \<^verbatim>\<open>try\<close> block of \<^verbatim>\<open>run\<close> after the backup step.
\<close>

definition keeps :: "(world \<Rightarrow> bool) \<Rightarrow> action \<Rightarrow> bool" where
  "keeps P f = (\<forall>w. P w \<longrightarrow> P (snd (f w)))"

definition clear_of_sample :: "path \<Rightarrow> path option \<Rightarrow> bool" where
  "clear_of_sample q c =
     (case c of
        None \<Rightarrow> True
      | Some c' \<Rightarrow>
          \<not> prefix q (c' @ [''deno-sample-project''])
        \<and> \<not> prefix q (c' @ [''deno-sample-project'', ''deno.json''])
        \<and> \<not> prefix q (c' @ [''deno-sample-project'', ''main.ts''])
        \<and> \<not> prefix q (c' @ [''deno-sample-project'', ''main_test.ts'']))"

definition install_steps :: "host \<Rightarrow> NeovimSetup \<Rightarrow> action" where
  "install_steps h s =
     seq (ensureDir h (configDir s))
    (seq (createConfigFiles h s)
    (seq (createSampleDenoProject h s)
         (printUsageInstructions s)))"

definition holds_at :: "path \<Rightarrow> node option \<Rightarrow> path option \<Rightarrow> world \<Rightarrow> bool" where
  "holds_at q v c w = (resolve (root w) q = v \<and> cwd w = c)"

definition cwd_ok :: "world \<Rightarrow> bool" where
  "cwd_ok w = (case cwd w of None \<Rightarrow> True | Some c \<Rightarrow> is_dir (resolve (root w) c))"

definition gentle :: "action \<Rightarrow> bool" where
  "gentle f = (\<forall>w. cwd (snd (f w)) = cwd w
                 \<and> (\<forall>q. is_dir (resolve (root w) q) \<longrightarrow> is_dir (resolve (root (snd (f w))) q)))"

section \<open>Sample hosts and worlds\<close>

text \<open>
  A host with every tool present and \<^verbatim>\<open>HOME=/home/u\<close>, the installer built on it, and a
  few small worlds below \<^verbatim>\<open>/home/u/.config\<close>, on which the theorems are exercised.
\<close>

definition tools_present :: "string \<Rightarrow> string list \<Rightarrow> probe" where
  "tools_present exe args = Exited True"

definition nothing_denied :: "path \<Rightarrow> bool" where
  "nothing_denied p = False"

definition demo_literal :: "string \<Rightarrow> string" where
  "demo_literal name = ''text of '' @ name"

definition demo_host :: host where
  "demo_host = \<lparr>getenv = [''HOME'' \<mapsto> ''/home/u''], command = tools_present,
                 denied = nothing_denied, literal = demo_literal\<rparr>"

definition demo_setup :: NeovimSetup where
  "demo_setup = \<lparr>configDir = [''home'', ''u'', ''.config'', ''nvim''],
                  backupDir = [''home'', ''u'', ''.config'', ''nvim.backup''],
                  sampleSkipped = False\<rparr>"

definition dir_of :: "(string \<times> node) list \<Rightarrow> node" where
  "dir_of es = Dir (map_of es)"

definition world_of :: "(string \<times> node) list \<Rightarrow> path \<Rightarrow> world" where
  "world_of es c =
     \<lparr>root = dir_of [(''home'', dir_of [(''u'', dir_of [(''.config'', dir_of es)])])],
      cwd = Some c, out = [], err = []\<rparr>"

definition old_config_world :: world where
  "old_config_world = world_of [(''nvim'', dir_of [(''a.txt'', File ''old'')])] [''home'', ''u'']"

definition two_generations_world :: world where
  "two_generations_world =
     world_of [(''nvim'', dir_of [(''a.txt'', File ''old'')]),
               (''nvim.backup'', dir_of [(''b.txt'', File ''older'')])] [''home'', ''u'']"

definition fresh_world :: world where
  "fresh_world = world_of [] [''home'', ''u'']"




definition homeless_host :: host where
  "homeless_host = demo_host\<lparr>getenv := Map.empty\<rparr>"




definition blocked_files :: "ConfigFile list" where
  "blocked_files =
     [\<lparr>path = ''init.lua'', content = ''first'', description = ''one''\<rparr>,
      \<lparr>path = ''init.lua/x'', content = ''second'', description = ''two''\<rparr>,
      \<lparr>path = ''later.lua'', content = ''third'', description = ''three''\<rparr>]"



definition quiet_setup :: NeovimSetup where
  "quiet_setup = demo_setup\<lparr>sampleSkipped := True\<rparr>"

definition restarted_elsewhere :: world where
  "restarted_elsewhere =
     (snd (run demo_host quiet_setup old_config_world))
       \<lparr>cwd := Some [''home'', ''u''], out := [], err := []\<rparr>"

definition restarted_inside_target :: world where
  "restarted_inside_target =
     (snd (run demo_host quiet_setup old_config_world))
       \<lparr>cwd := Some (configDir demo_setup), out := [], err := []\<rparr>"

section \<open>Sequencing and the console\<close>

lemma seq_ok: "f w = (None, w') \<Longrightarrow> seq f g w = g w'"
  by (simp add: seq_def)
lemma seq_fail: "f w = (Some e, w') \<Longrightarrow> seq f g w = (Some e, w')"
  by (simp add: seq_def)
lemma seq_log: "seq (log l) g w = g (w\<lparr>out := out w @ [l]\<rparr>)"
  by (simp add: seq_def log_def)
lemma seq_skip: "seq skip g w = g w"
  by (simp add: seq_def skip_def)
lemma seq_throw: "seq (throw e) g w = (Some e, w)"
  by (simp add: seq_def throw_def)

lemma logs_eq: "logs ls w = (None, w\<lparr>out := out w @ ls\<rparr>)"
  by (induction ls arbitrary: w) (simp_all add: skip_def seq_log)




section \<open>Properties of the file tree\<close>

lemma resolve_append:
  "resolve n (p @ q) = (case resolve n p of None \<Rightarrow> None | Some m \<Rightarrow> resolve m q)"
proof (induction p arbitrary: n)
  case Nil
  show ?case by simp
next
  case (Cons c p)
  show ?case
  proof (cases n)
    case (File s)
    then show ?thesis by simp
  next
    case (Dir d)
    then show ?thesis using Cons.IH by (simp split: option.splits)
  qed
qed

lemma resolve_prefix_None:
  "resolve n p = None \<Longrightarrow> prefix p q \<Longrightarrow> resolve n q = None"
  by (auto simp: prefix_def resolve_append)

lemma resolve_below_file:
  "\<not> is_dir (resolve n p) \<Longrightarrow> strict_prefix p q \<Longrightarrow> resolve n q = None"
proof -
  assume a: "\<not> is_dir (resolve n p)" and b: "strict_prefix p q"
  from b obtain c r where q: "q = p @ c # r"
    by (auto simp: strict_prefix_def prefix_def) (metis neq_Nil_conv)
  show ?thesis
  proof (cases "resolve n p")
    case None
    then show ?thesis by (simp add: q resolve_append)
  next
    case (Some m)
    with a obtain s where "m = File s" by (cases m) auto
    with Some show ?thesis by (simp add: q resolve_append)
  qed
qed

lemma parent_is_dir:
  assumes "resolve n p = Some m" and "p \<noteq> []"
  shows "is_dir (resolve n (butlast p))"
proof -
  from assms(2) have "strict_prefix (butlast p) p"
    by (metis append_butlast_last_id not_Cons_self2 prefixI self_append_conv strict_prefixI)
  with assms(1) resolve_below_file[of n "butlast p" p] show ?thesis by auto
qed

lemma resolve_graft_at:
  "p \<noteq> [] \<Longrightarrow> is_dir (resolve n (butlast p)) \<Longrightarrow> resolve (graft p v n) p = v"
proof (induction p arbitrary: n)
  case Nil
  then show ?case by simp
next
  case (Cons c p)
  show ?case
  proof (cases n)
    case (File s)
    with Cons.prems show ?thesis by (cases p) auto
  next
    case (Dir d)
    show ?thesis
    proof (cases "p = []")
      case True
      with Dir show ?thesis by (simp split: option.splits)
    next
      case False
      with Dir Cons.prems Cons.IH show ?thesis
        by (auto split: option.splits)
    qed
  qed
qed

lemma resolve_graft_apart:
  "\<not> prefix p q \<Longrightarrow> \<not> prefix q p \<Longrightarrow> resolve (graft p v n) q = resolve n q"
proof (induction p arbitrary: n q)
  case Nil
  then show ?case by simp
next
  case (Cons c p)
  from Cons.prems obtain c' q' where q: "q = c' # q'" by (cases q) auto
  show ?case
  proof (cases n)
    case (File s)
    then show ?thesis by (simp add: q)
  next
    case (Dir d)
    show ?thesis
    proof (cases "c' = c")
      case False
      with Dir show ?thesis by (auto simp: q split: option.splits)
    next
      case True
      with Cons.prems q have np: "\<not> prefix p q'" "\<not> prefix q' p" by auto
      then have "p \<noteq> []" by auto
      with Dir True np Cons.IH[OF np] show ?thesis
        by (auto simp: q split: option.splits)
    qed
  qed
qed

lemma mkdirp_frame:
  "mkdirp p n = Some n' \<Longrightarrow> \<not> prefix q p \<Longrightarrow> resolve n' q = resolve n q"
proof (induction p arbitrary: n n' q)
  case Nil
  then show ?case by (cases n) auto
next
  case (Cons c p)
  from Cons.prems obtain c' q' where q: "q = c' # q'" by (cases q) auto
  from Cons.prems obtain d where n: "n = Dir d" by (cases n) auto
  let ?m = "case d c of None \<Rightarrow> Dir Map.empty | Some m \<Rightarrow> m"
  from Cons.prems n obtain m' where m': "mkdirp p ?m = Some m'" and n': "n' = Dir (d(c \<mapsto> m'))"
    by (auto split: option.splits)
  show ?case
  proof (cases "c' = c")
    case False
    then show ?thesis by (simp add: q n n')
  next
    case True
    with Cons.prems q have "\<not> prefix q' p" by auto
    from Cons.IH[OF m' this] have "resolve m' q' = resolve ?m q'" .
    moreover have "q' \<noteq> []" using \<open>\<not> prefix q' p\<close> by auto
    ultimately show ?thesis using True
      by (cases q') (auto simp: q n n' split: option.splits)
  qed
qed

lemma mkdirp_is_dir:
  "mkdirp p n = Some n' \<Longrightarrow> prefix q p \<Longrightarrow> is_dir (resolve n' q)"
proof (induction p arbitrary: n n' q)
  case Nil
  then show ?case by (cases n) auto
next
  case (Cons c p)
  from Cons.prems obtain d where n: "n = Dir d" by (cases n) auto
  let ?m = "case d c of None \<Rightarrow> Dir Map.empty | Some m \<Rightarrow> m"
  from Cons.prems n obtain m' where m': "mkdirp p ?m = Some m'" and n': "n' = Dir (d(c \<mapsto> m'))"
    by (auto split: option.splits)
  show ?case
  proof (cases q)
    case Nil
    then show ?thesis by (simp add: n')
  next
    case (Cons c' q')
    with Cons.prems have "c' = c" "prefix q' p" by auto
    with Cons.IH[OF m'] Cons show ?thesis by (simp add: n')
  qed
qed

lemma graft_keeps_ancestors:
  "strict_prefix q p \<Longrightarrow> is_dir (resolve n q) \<Longrightarrow> is_dir (resolve (graft p v n) q)"
proof (induction p arbitrary: n q)
  case Nil
  then show ?case by simp
next
  case (Cons c p)
  show ?case
  proof (cases q)
    case Nil
    with Cons.prems show ?thesis by (cases n) (auto split: option.splits)
  next
    case q: (Cons c' q')
    with Cons.prems have eq: "c' = c" and sp: "strict_prefix q' p" by auto
    from Cons.prems q obtain d where n: "n = Dir d" by (cases n) auto
    from sp have "p \<noteq> []" by auto
    with Cons.prems Cons.IH[OF sp] show ?thesis
      by (auto simp: q eq n split: option.splits)
  qed
qed

lemma rename_apart:
  assumes ok: "fst (rename h src dst w) = None" and ne: "src \<noteq> dst"
  shows "\<not> prefix src dst \<and> \<not> prefix dst src"
proof -
  from ok obtain n where n: "resolve (root w) src = Some n"
    by (auto simp: rename_def split: option.splits if_splits)
  from ok ne n have c: "src \<noteq> []" "dst \<noteq> []" "\<not> prefix src dst"
      "resolve (root w) dst = None \<or> (is_file (Some n) \<and> is_file (resolve (root w) dst))"
    by (auto simp: rename_def split: option.splits if_splits)
  have "\<not> prefix dst src"
  proof
    assume "prefix dst src"
    with ne have sp: "strict_prefix dst src" by auto
    from c(4) have "\<not> is_dir (resolve (root w) dst)"
      by (cases "resolve (root w) dst" rule: is_dir.cases) auto
    from resolve_below_file[OF this sp] n show False by simp
  qed
  with c show ?thesis by simp
qed

lemma rename_moves:
  assumes ok: "fst (rename h src dst w) = None" and ne: "src \<noteq> dst"
  shows "resolve (root (snd (rename h src dst w))) dst = resolve (root w) src"
    and "resolve (root (snd (rename h src dst w))) src = None"
proof -
  from ok obtain n where n: "resolve (root w) src = Some n"
    by (auto simp: rename_def split: option.splits if_splits)
  from ok ne n have c: "src \<noteq> []" "dst \<noteq> []" "is_dir (resolve (root w) (butlast dst))"
    and r: "root (snd (rename h src dst w)) = graft dst (Some n) (graft src None (root w))"
    by (auto simp: rename_def split: option.splits if_splits)
  from rename_apart[OF ok ne] have ap: "\<not> prefix src dst" "\<not> prefix dst src" by simp_all
  let ?r1 = "graft src None (root w)"
  have pd: "is_dir (resolve ?r1 (butlast dst))"
  proof (cases "prefix (butlast dst) src")
    case True
    have "butlast dst \<noteq> src" using ap(1) c(2)
      by (metis append_butlast_last_id prefixI)
    with True have "strict_prefix (butlast dst) src" by auto
    from graft_keeps_ancestors[OF this c(3)] show ?thesis .
  next
    case False
    moreover have "\<not> prefix src (butlast dst)"
      using ap(1) c(2) by (metis append_butlast_last_id prefix_order.trans prefixI)
    ultimately show ?thesis using resolve_graft_apart[of src "butlast dst" None "root w"] c(3) by simp
  qed
  show "resolve (root (snd (rename h src dst w))) dst = resolve (root w) src"
    using resolve_graft_at[OF c(2) pd] by (simp add: r n)
  have "resolve (root (snd (rename h src dst w))) src = resolve ?r1 src"
    using resolve_graft_apart[of dst src "Some n" ?r1] ap by (simp add: r)
  also have "\<dots> = None"
    using resolve_graft_at[OF c(1) parent_is_dir[OF n c(1)]] .
  finally show "resolve (root (snd (rename h src dst w))) src = None" .
qed


lemma remove_recursive_frame:
  assumes "\<not> prefix p q" "\<not> prefix q p"
  shows "resolve (root (snd (remove_recursive h p w))) q = resolve (root w) q"
  using assms by (simp add: remove_recursive_def resolve_graft_apart)

lemma constructed_dirs:
  assumes "new_NeovimSetup h = Inr s"
  shows "\<exists>b. configDir s = b @ [''nvim''] \<and> backupDir s = b @ [''nvim.backup'']"
  using assms
  by (auto simp: new_NeovimSetup_def joins_def join_def enter_def Let_def split: option.splits)


section \<open>The backup step\<close>

lemma demo_constructed: "new_NeovimSetup demo_host = Inr demo_setup"
  by (simp add: new_NeovimSetup_def demo_host_def demo_setup_def truthy_def joins_def join_def enter_def)

lemma backup_absent:
  "\<not> exists (configDir s) w \<Longrightarrow> backupExistingConfig h s w = (None, w)"
  by (simp add: backupExistingConfig_def skip_def)



lemma backup_success:
  assumes ex: "exists (configDir s) w" and ok: "fst (backupExistingConfig h s w) = None"
  defines "w0 \<equiv> w\<lparr>out := out w @ [''Backing up existing Neovim configuration...'']\<rparr>"
  defines "w1 \<equiv> (if exists (backupDir s) w
                  then snd (remove_recursive h (backupDir s) (w0\<lparr>out := out w0 @ [''Removing old backup...'']\<rparr>))
                  else w0)"
  shows "exists (backupDir s) w \<longrightarrow>
           fst (remove_recursive h (backupDir s) (w0\<lparr>out := out w0 @ [''Removing old backup...'']\<rparr>)) = None"
    and "fst (rename h (configDir s) (backupDir s) w1) = None"
    and "root (snd (backupExistingConfig h s w)) = root (snd (rename h (configDir s) (backupDir s) w1))"
    and "cwd (snd (backupExistingConfig h s w)) = cwd (snd (rename h (configDir s) (backupDir s) w1))"
  using ex ok unfolding w0_def w1_def
  by (auto simp: backupExistingConfig_def seq_def log_def skip_def exists_def
           split: prod.splits option.splits if_splits)

lemmas demo_defs = demo_host_def demo_setup_def dir_of_def world_of_def old_config_world_def
  two_generations_world_def fresh_world_def tools_present_def nothing_denied_def
lemmas io_defs = exists_def ensureDir_def writeTextFile_def remove_recursive_def rename_def
  seq_def log_def skip_def throw_def deno_cwd_def

lemma old_config_backup_ok:
  "exists (configDir demo_setup) old_config_world
   \<and> fst (backupExistingConfig demo_host demo_setup old_config_world) = None"
  by (simp add: backupExistingConfig_def demo_defs io_defs)

lemma backup_moves:
  assumes mk: "new_NeovimSetup h = Inr s"
    and ex: "exists (configDir s) w" and ok: "fst (backupExistingConfig h s w) = None"
  shows "resolve (root (snd (backupExistingConfig h s w))) (backupDir s) = resolve (root w) (configDir s)"
    and "resolve (root (snd (backupExistingConfig h s w))) (configDir s) = None"
proof -
  from constructed_dirs[OF mk] obtain b where
    cd: "configDir s = b @ [''nvim'']" and bd: "backupDir s = b @ [''nvim.backup'']" by blast
  have ne: "configDir s \<noteq> backupDir s" by (simp add: cd bd)
  have ap: "\<not> prefix (backupDir s) (configDir s)" "\<not> prefix (configDir s) (backupDir s)"
    by (simp_all add: cd bd)
  define w0 where "w0 = w\<lparr>out := out w @ [''Backing up existing Neovim configuration...'']\<rparr>"
  define w1 where "w1 = (if exists (backupDir s) w
                then snd (remove_recursive h (backupDir s) (w0\<lparr>out := out w0 @ [''Removing old backup...'']\<rparr>))
                else w0)"
  note bs = backup_success[OF ex ok, folded w0_def, folded w1_def]
  have "resolve (root w1) (configDir s) = resolve (root w) (configDir s)"
    using remove_recursive_frame[OF ap] by (simp add: w1_def w0_def)
  with rename_moves[OF bs(2) ne] bs(3)
  show "resolve (root (snd (backupExistingConfig h s w))) (backupDir s) = resolve (root w) (configDir s)"
    and "resolve (root (snd (backupExistingConfig h s w))) (configDir s) = None"
    by simp_all
qed

text \<open>
  Claim C1. When the target directory exists at the start of the backup step and the step
  completes, what was below the target directory is below the backup path and the target
  path is gone; when the target directory does not exist the step returns at once with the
  world as it was. At the end exactly one of the two holds: there was no prior
  configuration, or the prior configuration is at the backup path.
\<close>

theorem backupExistingConfig_postcondition:
  assumes mk: "new_NeovimSetup h = Inr s"
  shows "(\<not> exists (configDir s) w \<longrightarrow> backupExistingConfig h s w = (None, w))
       \<and> (exists (configDir s) w \<and> fst (backupExistingConfig h s w) = None \<longrightarrow>
            resolve (root (snd (backupExistingConfig h s w))) (backupDir s) = resolve (root w) (configDir s)
          \<and> resolve (root (snd (backupExistingConfig h s w))) (configDir s) = None)
       \<and> (fst (backupExistingConfig h s w) = None \<longrightarrow>
            (\<not> exists (configDir s) w) \<noteq>
            (exists (configDir s) w \<and>
             resolve (root (snd (backupExistingConfig h s w))) (backupDir s) = resolve (root w) (configDir s)))"
  using backup_moves[OF mk] backup_absent by blast

theorem backupExistingConfig_postcondition_witness:
  "exists (configDir demo_setup) old_config_world
   \<and> fst (backupExistingConfig demo_host demo_setup old_config_world) = None
   \<and> resolve (root (snd (backupExistingConfig demo_host demo_setup old_config_world)))
        (backupDir demo_setup) = resolve (root old_config_world) (configDir demo_setup)
   \<and> resolve (root (snd (backupExistingConfig demo_host demo_setup old_config_world)))
        (configDir demo_setup) = None
   \<and> \<not> exists (configDir demo_setup) fresh_world
   \<and> backupExistingConfig demo_host demo_setup fresh_world = (None, fresh_world)"
proof -
  have a: "\<not> exists (configDir demo_setup) fresh_world"
    by (simp add: demo_defs io_defs)
  show ?thesis
    using backupExistingConfig_postcondition[OF demo_constructed, of old_config_world]
          backupExistingConfig_postcondition[OF demo_constructed, of fresh_world] old_config_backup_ok a
    by simp
qed






section \<open>The prerequisite check and the command line\<close>

lemma checkTool_found:
  "command h exe [''--version''] = Exited True \<Longrightarrow>
   checkTool h exe label w = (None, w\<lparr>out := out w @ [label @ '' found'']\<rparr>)"
  by (simp add: checkTool_def log_def)

lemma checkTool_missing:
  "command h exe [''--version''] \<noteq> Exited True \<Longrightarrow>
   checkTool h exe label w = (Some (Error (label @ '' is not installed or not in PATH'')), w)"
  by (cases "command h exe [''--version'']") (auto simp: checkTool_def throw_def)

lemma seq_checkTool:
  "seq (checkTool h exe label) g w =
     (if command h exe [''--version''] = Exited True
      then g (w\<lparr>out := out w @ [label @ '' found'']\<rparr>)
      else (Some (Error (label @ '' is not installed or not in PATH'')), w))"
  by (simp add: seq_def checkTool_found checkTool_missing)

lemma checkPrerequisites_eq:
  "checkPrerequisites h w =
     (if command h ''nvim'' [''--version''] \<noteq> Exited True
      then (Some (Error ''Neovim is not installed or not in PATH''),
            w\<lparr>out := out w @ [''Checking prerequisites...'']\<rparr>)
      else if command h ''deno'' [''--version''] \<noteq> Exited True
      then (Some (Error ''Deno is not installed or not in PATH''),
            w\<lparr>out := out w @ [''Checking prerequisites...'', ''Neovim found'']\<rparr>)
      else if command h ''git'' [''--version''] \<noteq> Exited True
      then (Some (Error ''Git is not installed or not in PATH''),
            w\<lparr>out := out w @ [''Checking prerequisites...'', ''Neovim found'', ''Deno found'']\<rparr>)
      else (None, w\<lparr>out := out w @ [''Checking prerequisites...'', ''Neovim found'',
                                      ''Deno found'', ''Git found'']\<rparr>))"
  by (simp add: checkPrerequisites_def seq_log seq_checkTool checkTool_found checkTool_missing)

lemma seq_checkPrerequisites:
  "seq (checkPrerequisites h) g w =
     (case checkPrerequisites h w of (None, w') \<Rightarrow> g w' | (Some e, w') \<Rightarrow> (Some e, w'))"
  by (simp add: seq_def)







lemma run_reports_every_error:
  "fst (run_steps h s w) = Some e \<Longrightarrow>
     fst (run h s w) = Exit 1
   \<and> err (snd (run h s w)) = err (snd (run_steps h s w)) @ [''Setup failed: '' @ message e]"
  by (cases "run_steps h s w") (simp add: run_def)

text \<open>
  Claim C7. Every error raised inside \<^verbatim>\<open>run\<close> is caught there, printed as
  \<^verbatim>\<open>Setup failed: ...\<close> and ends the process with status 1 (\<open>run_reports_every_error\<close>).
  The constructor is called by \<^verbatim>\<open>main\<close> before \<^verbatim>\<open>run\<close> and outside its \<^verbatim>\<open>try\<close>: with
  neither \<^verbatim>\<open>HOME\<close> nor \<^verbatim>\<open>USERPROFILE\<close> set, its error leaves \<^verbatim>\<open>main\<close> uncaught and the
  script prints no message of its own.
\<close>

theorem constructor_error_escapes_main:
  "main homeless_host [] old_config_world
     = (Uncaught (Error ''Could not determine home directory''), old_config_world)"
  by (simp add: main_def new_NeovimSetup_def homeless_host_def demo_defs truthy_def)


section \<open>Materializing the configuration files\<close>


lemma fst_seq:
  "fst (seq f g w) = (case fst (f w) of None \<Rightarrow> fst (g (snd (f w))) | Some e \<Rightarrow> Some e)"
  by (simp add: seq_def split: prod.splits option.splits)

lemma snd_seq:
  "snd (seq f g w) = (case fst (f w) of None \<Rightarrow> snd (g (snd (f w))) | Some e \<Rightarrow> snd (f w))"
  by (simp add: seq_def split: prod.splits option.splits)

lemma seq_assoc: "seq (seq f g) k = seq f (seq g k)"
  by (rule ext) (simp add: seq_def split: prod.splits option.splits)

lemma mkdirp_keeps_files:
  "mkdirp p n = Some n' \<Longrightarrow> resolve n q = Some (File t) \<Longrightarrow> resolve n' q = Some (File t)"
proof (induction p arbitrary: n n' q)
  case Nil
  then show ?case by (cases n) auto
next
  case (Cons c p)
  from Cons.prems obtain d where n: "n = Dir d" by (cases n) auto
  let ?m = "case d c of None \<Rightarrow> Dir Map.empty | Some m \<Rightarrow> m"
  from Cons.prems n obtain m' where m': "mkdirp p ?m = Some m'" and n': "n' = Dir (d(c \<mapsto> m'))"
    by (auto split: option.splits)
  from Cons.prems n obtain c' q' where q: "q = c' # q'" by (cases q) auto
  show ?case
  proof (cases "c' = c")
    case False
    with Cons.prems show ?thesis by (simp add: q n n')
  next
    case True
    with Cons.prems q n obtain m where dc: "d c = Some m" and r: "resolve m q' = Some (File t)"
      by (auto split: option.splits)
    from Cons.IH[of m m' q'] m' dc r have "resolve m' q' = Some (File t)" by simp
    with True show ?thesis by (simp add: q n')
  qed
qed

lemma mkdirp_keeps_dirs:
  "mkdirp p n = Some n' \<Longrightarrow> is_dir (resolve n q) \<Longrightarrow> is_dir (resolve n' q)"
proof (induction p arbitrary: n n' q)
  case Nil
  then show ?case by (cases n) auto
next
  case (Cons c p)
  from Cons.prems obtain d where n: "n = Dir d" by (cases n) auto
  let ?m = "case d c of None \<Rightarrow> Dir Map.empty | Some m \<Rightarrow> m"
  from Cons.prems n obtain m' where m': "mkdirp p ?m = Some m'" and n': "n' = Dir (d(c \<mapsto> m'))"
    by (auto split: option.splits)
  show ?case
  proof (cases q)
    case Nil
    then show ?thesis by (simp add: n')
  next
    case q: (Cons c' q')
    show ?thesis
    proof (cases "c' = c")
      case False
      with Cons.prems show ?thesis by (simp add: q n n')
    next
      case True
      with Cons.prems q n obtain m where dc: "d c = Some m" and r: "is_dir (resolve m q')"
        by (auto split: option.splits)
      from Cons.IH[of m m' q'] m' dc r have "is_dir (resolve m' q')" by simp
      with True show ?thesis by (simp add: q n')
    qed
  qed
qed

lemma ensureDir_keeps_files:
  "resolve (root w) q = Some (File t) \<Longrightarrow> resolve (root (snd (ensureDir h p w))) q = Some (File t)"
  by (auto simp: ensureDir_def mkdirp_keeps_files split: option.splits node.splits)

lemma ensureDir_keeps_dirs:
  "is_dir (resolve (root w) q) \<Longrightarrow> is_dir (resolve (root (snd (ensureDir h p w))) q)"
  by (auto simp: ensureDir_def mkdirp_keeps_dirs split: option.splits node.splits)

lemma ensureDir_makes_dir:
  "fst (ensureDir h p w) = None \<Longrightarrow> is_dir (resolve (root (snd (ensureDir h p w))) p)"
  by (auto simp: ensureDir_def mkdirp_is_dir split: option.splits node.splits if_splits)

lemma ensureDir_frame:
  "\<not> prefix q p \<Longrightarrow> resolve (root (snd (ensureDir h p w))) q = resolve (root w) q"
  by (auto simp: ensureDir_def mkdirp_frame split: option.splits node.splits)

lemma ensureDir_others:
  "cwd (snd (ensureDir h p w)) = cwd w" "out (snd (ensureDir h p w)) = out w"
  "err (snd (ensureDir h p w)) = err w"
  by (auto simp: ensureDir_def split: option.splits node.splits)

lemma writeTextFile_writes:
  assumes "fst (writeTextFile h p txt w) = None"
  shows "resolve (root (snd (writeTextFile h p txt w))) p = Some (File txt)"
proof -
  from assms have c: "p \<noteq> []" "is_dir (resolve (root w) (butlast p))"
    and r: "root (snd (writeTextFile h p txt w)) = graft p (Some (File txt)) (root w)"
    by (auto simp: writeTextFile_def split: if_splits option.splits node.splits)
  from resolve_graft_at[OF c] show ?thesis by (simp add: r)
qed

lemma writeTextFile_frame:
  assumes "\<not> prefix q p"
  shows "resolve (root (snd (writeTextFile h p txt w))) q = resolve (root w) q"
proof (cases "fst (writeTextFile h p txt w)")
  case (Some e)
  then have "snd (writeTextFile h p txt w) = w"
    by (auto simp: writeTextFile_def split: if_splits option.splits node.splits)
  then show ?thesis by simp
next
  case None
  then have c: "p \<noteq> []" "\<not> is_dir (resolve (root w) p)"
    and r: "root (snd (writeTextFile h p txt w)) = graft p (Some (File txt)) (root w)"
    by (auto simp: writeTextFile_def split: if_splits option.splits node.splits)
  show ?thesis
  proof (cases "prefix p q")
    case False
    with assms show ?thesis by (simp add: r resolve_graft_apart)
  next
    case True
    with assms have sp: "strict_prefix p q" by auto
    have "\<not> is_dir (resolve (root (snd (writeTextFile h p txt w))) p)"
      using writeTextFile_writes[OF None] by simp
    from resolve_below_file[OF this sp] resolve_below_file[OF c(2) sp] show ?thesis by simp
  qed
qed

lemma writeTextFile_keeps_files:
  assumes "resolve (root w) q = Some (File t)" and "q \<noteq> p"
  shows "resolve (root (snd (writeTextFile h p txt w))) q = Some (File t)"
proof (cases "prefix q p")
  case False
  with assms show ?thesis by (simp add: writeTextFile_frame)
next
  case True
  with assms have sp: "strict_prefix q p" by auto
  then have pne: "p \<noteq> []" by auto
  have "\<not> is_dir (resolve (root w) (butlast p))"
  proof (cases "butlast p = q")
    case True
    with assms show ?thesis by simp
  next
    case False
    have "prefix q (butlast p)" using sp pne
      by (metis append_butlast_last_id prefix_snoc strict_prefix_def)
    with False have "strict_prefix q (butlast p)" by auto
    from resolve_below_file[OF _ this, of "root w"] assms show ?thesis by simp
  qed
  then have "snd (writeTextFile h p txt w) = w"
    by (auto simp: writeTextFile_def split: if_splits option.splits node.splits)
  with assms show ?thesis by simp
qed

lemma writeTextFile_keeps_dirs:
  assumes "is_dir (resolve (root w) q)"
  shows "is_dir (resolve (root (snd (writeTextFile h p txt w))) q)"
proof (cases "fst (writeTextFile h p txt w)")
  case (Some e)
  then have "snd (writeTextFile h p txt w) = w"
    by (auto simp: writeTextFile_def split: if_splits option.splits node.splits)
  with assms show ?thesis by simp
next
  case None
  then have c: "p \<noteq> []" "\<not> is_dir (resolve (root w) p)"
    and r: "root (snd (writeTextFile h p txt w)) = graft p (Some (File txt)) (root w)"
    by (auto simp: writeTextFile_def split: if_splits option.splits node.splits)
  show ?thesis
  proof (cases "prefix q p")
    case False
    with assms show ?thesis by (simp add: writeTextFile_frame)
  next
    case True
    moreover from assms c(2) have "q \<noteq> p" by auto
    ultimately have "strict_prefix q p" by (simp add: strict_prefix_def)
    from graft_keeps_ancestors[OF this assms] show ?thesis by (simp add: r)
  qed
qed

lemma writeTextFile_others:
  "cwd (snd (writeTextFile h p txt w)) = cwd w" "out (snd (writeTextFile h p txt w)) = out w"
  "err (snd (writeTextFile h p txt w)) = err w"
  by (auto simp: writeTextFile_def split: if_splits option.splits node.splits)


lemma writeConfigFile_keeps_files:
  "resolve (root w) q = Some (File t) \<Longrightarrow> q \<noteq> join base (path cf) \<Longrightarrow>
   resolve (root (snd (writeConfigFile h base cf w))) q = Some (File t)"
  by (auto simp: writeConfigFile_def Let_def snd_seq throw_def log_def
                 ensureDir_keeps_files writeTextFile_keeps_files split: option.splits)

lemma writeConfigFile_keeps_dirs:
  "is_dir (resolve (root w) q) \<Longrightarrow> is_dir (resolve (root (snd (writeConfigFile h base cf w))) q)"
  by (auto simp: writeConfigFile_def Let_def snd_seq throw_def log_def
                 ensureDir_keeps_dirs writeTextFile_keeps_dirs split: option.splits)

lemma writeConfigFile_writes:
  assumes "fst (writeConfigFile h base cf w) = None"
  shows "resolve (root (snd (writeConfigFile h base cf w))) (join base (path cf))
           = Some (File (content cf))"
    and "is_dir (resolve (root (snd (writeConfigFile h base cf w))) (butlast (join base (path cf))))"
proof -
  let ?full = "join base (path cf)"
  let ?w1 = "snd (ensureDir h (butlast ?full) w)"
  from assms have nt: "\<not> trailing_slash (path cf)"
    and e: "fst (ensureDir h (butlast ?full) w) = None"
    and wr: "fst (writeTextFile h ?full (content cf) ?w1) = None"
    by (auto simp: writeConfigFile_def Let_def fst_seq throw_def split: option.splits if_splits)
  from nt e wr have r: "root (snd (writeConfigFile h base cf w))
      = root (snd (writeTextFile h ?full (content cf) ?w1))"
    by (simp add: writeConfigFile_def Let_def snd_seq log_def)
  show "resolve (root (snd (writeConfigFile h base cf w))) ?full = Some (File (content cf))"
    using writeTextFile_writes[OF wr] by (simp add: r)
  show "is_dir (resolve (root (snd (writeConfigFile h base cf w))) (butlast ?full))"
    using writeTextFile_keeps_dirs[OF ensureDir_makes_dir[OF e]] by (simp add: r)
qed

lemma writeConfigFiles_append:
  "writeConfigFiles h base (xs @ ys) = seq (writeConfigFiles h base xs) (writeConfigFiles h base ys)"
proof (induction xs)
  case Nil
  show ?case by (rule ext) (simp add: seq_skip)
next
  case (Cons x xs)
  then show ?case by (simp add: seq_assoc)
qed

lemma writeConfigFiles_keeps_files:
  "resolve (root w) q = Some (File t) \<Longrightarrow> \<forall>y \<in> set cfs. join base (path y) \<noteq> q \<Longrightarrow>
   resolve (root (snd (writeConfigFiles h base cfs w))) q = Some (File t)"
proof (induction cfs arbitrary: w)
  case Nil
  then show ?case by (simp add: skip_def)
next
  case (Cons cf cfs)
  from Cons.prems have "resolve (root (snd (writeConfigFile h base cf w))) q = Some (File t)"
    by (intro writeConfigFile_keeps_files) auto
  with Cons show ?case by (auto simp: snd_seq split: option.splits)
qed

lemma writeConfigFiles_keeps_dirs:
  "is_dir (resolve (root w) q) \<Longrightarrow> is_dir (resolve (root (snd (writeConfigFiles h base cfs w))) q)"
proof (induction cfs arbitrary: w)
  case Nil
  then show ?case by (simp add: skip_def)
next
  case (Cons cf cfs)
  from Cons.prems have "is_dir (resolve (root (snd (writeConfigFile h base cf w))) q)"
    by (rule writeConfigFile_keeps_dirs)
  with Cons show ?case by (auto simp: snd_seq split: option.splits)
qed

lemma writeConfigFiles_last_write:
  assumes ok: "fst (writeConfigFiles h base (xs @ cf # ys) w) = None"
    and last: "\<forall>y \<in> set ys. join base (path y) \<noteq> join base (path cf)"
  shows "resolve (root (snd (writeConfigFiles h base (xs @ cf # ys) w))) (join base (path cf))
           = Some (File (content cf))"
    and "is_dir (resolve (root (snd (writeConfigFiles h base (xs @ cf # ys) w)))
                  (butlast (join base (path cf))))"
proof -
  let ?w1 = "snd (writeConfigFiles h base xs w)"
  let ?w2 = "snd (writeConfigFile h base cf ?w1)"
  from ok have a: "fst (writeConfigFiles h base xs w) = None"
    and b: "fst (writeConfigFile h base cf ?w1) = None"
    by (auto simp: writeConfigFiles_append fst_seq split: option.splits)
  from a b have s: "snd (writeConfigFiles h base (xs @ cf # ys) w) = snd (writeConfigFiles h base ys ?w2)"
    by (simp add: writeConfigFiles_append snd_seq)
  show "resolve (root (snd (writeConfigFiles h base (xs @ cf # ys) w))) (join base (path cf))
           = Some (File (content cf))"
    unfolding s using writeConfigFile_writes(1)[OF b] last
    by (intro writeConfigFiles_keeps_files) auto
  show "is_dir (resolve (root (snd (writeConfigFiles h base (xs @ cf # ys) w)))
                  (butlast (join base (path cf))))"
    unfolding s using writeConfigFile_writes(2)[OF b]
    by (rule writeConfigFiles_keeps_dirs)
qed

lemma createConfigFilesOf_parts:
  assumes "fst (createConfigFilesOf h base cfs w) = None"
  shows "fst (writeConfigFiles h base cfs (w\<lparr>out := out w @ [''Creating configuration files...'']\<rparr>)) = None"
    and "root (snd (createConfigFilesOf h base cfs w)) =
         root (snd (ensureDir h (join base ''undo'')
                (snd (writeConfigFiles h base cfs (w\<lparr>out := out w @ [''Creating configuration files...'']\<rparr>)))))"
    and "fst (ensureDir h (join base ''undo'')
                (snd (writeConfigFiles h base cfs (w\<lparr>out := out w @ [''Creating configuration files...'']\<rparr>)))) = None"
  using assms
  by (auto simp: createConfigFilesOf_def seq_log fst_seq snd_seq log_def split: option.splits)



lemmas path_defs = join_def enter_def trailing_slash_def
lemmas step_defs = createConfigFilesOf_def writeConfigFile_def Let_def

lemma writeTextFile_failure:
  "fst (writeTextFile h p txt w) = Some e \<Longrightarrow> snd (writeTextFile h p txt w) = w"
  by (auto simp: writeTextFile_def split: if_splits option.splits node.splits)

lemma writeConfigFile_failure_keeps_files:
  assumes "fst (writeConfigFile h base cf w) = Some e" and "resolve (root w) q = Some (File t)"
  shows "resolve (root (snd (writeConfigFile h base cf w))) q = Some (File t)"
  using assms
  by (auto simp: writeConfigFile_def Let_def fst_seq snd_seq throw_def log_def
                 ensureDir_keeps_files writeTextFile_failure split: option.splits if_splits)




text \<open>
  Claim C6. The loop handles the entries in list order (the list splits into what runs
  before an entry, the entry, and what runs after it). When the entries before \<open>cf\<close> succeed
  and \<open>cf\<close> fails with \<open>e\<close>, the step returns \<open>e\<close> in the world that the failed entry left,
  whatever entries \<open>ys\<close> follow, and a file written by an earlier entry (and not
  overwritten by a later one before the failure) is still there with its content.
\<close>

theorem materialization_aborts_without_rollback:
  assumes ok: "fst (writeConfigFiles h base (us @ x # vs)
                     (w\<lparr>out := out w @ [''Creating configuration files...'']\<rparr>)) = None"
    and bad: "fst (writeConfigFile h base cf
                (snd (writeConfigFiles h base (us @ x # vs)
                       (w\<lparr>out := out w @ [''Creating configuration files...'']\<rparr>)))) = Some e"
    and last: "\<forall>y \<in> set vs. join base (path y) \<noteq> join base (path x)"
  shows "createConfigFilesOf h base ((us @ x # vs) @ cf # ys) w =
           writeConfigFile h base cf
             (snd (writeConfigFiles h base (us @ x # vs)
                    (w\<lparr>out := out w @ [''Creating configuration files...'']\<rparr>)))
       \<and> fst (createConfigFilesOf h base ((us @ x # vs) @ cf # ys) w) = Some e
       \<and> resolve (root (snd (createConfigFilesOf h base ((us @ x # vs) @ cf # ys) w)))
           (join base (path x)) = Some (File (content x))
       \<and> writeConfigFiles h base ((us @ x # vs) @ cf # ys) =
           seq (writeConfigFiles h base (us @ x # vs))
               (seq (writeConfigFile h base cf) (writeConfigFiles h base ys))"
proof -
  let ?w0 = "w\<lparr>out := out w @ [''Creating configuration files...'']\<rparr>"
  let ?w1 = "snd (writeConfigFiles h base (us @ x # vs) ?w0)"
  have sq: "writeConfigFiles h base ((us @ x # vs) @ cf # ys) =
           seq (writeConfigFiles h base (us @ x # vs))
               (seq (writeConfigFile h base cf) (writeConfigFiles h base ys))"
    by (simp only: writeConfigFiles_append writeConfigFiles.simps)
  obtain w2 where w2: "writeConfigFile h base cf ?w1 = (Some e, w2)"
    using bad by (cases "writeConfigFile h base cf ?w1") auto
  obtain u where u: "writeConfigFiles h base (us @ x # vs) ?w0 = (None, u)"
    using ok by (cases "writeConfigFiles h base (us @ x # vs) ?w0") auto
  have eq: "createConfigFilesOf h base ((us @ x # vs) @ cf # ys) w = writeConfigFile h base cf ?w1"
    unfolding createConfigFilesOf_def sq using w2 u
    by (simp add: seq_log) (simp add: seq_def)
  have kept: "resolve (root ?w1) (join base (path x)) = Some (File (content x))"
    by (rule writeConfigFiles_last_write(1)[OF ok last])
  from writeConfigFile_failure_keeps_files[OF bad kept] eq bad sq show ?thesis by simp
qed

theorem materialization_aborts_without_rollback_witness:
  "fst (createConfigFilesOf demo_host (configDir demo_setup) blocked_files fresh_world)
     = Some (NotADirectory (join (configDir demo_setup) ''init.lua''))
   \<and> resolve (root (snd (createConfigFilesOf demo_host (configDir demo_setup) blocked_files fresh_world)))
        (join (configDir demo_setup) ''init.lua'') = Some (File ''first'')
   \<and> resolve (root (snd (createConfigFilesOf demo_host (configDir demo_setup) blocked_files fresh_world)))
        (join (configDir demo_setup) ''later.lua'') = None"
proof -
  let ?x = "\<lparr>path = ''init.lua'', content = ''first'', description = ''one''\<rparr>"
  let ?cf = "\<lparr>path = ''init.lua/x'', content = ''second'', description = ''two''\<rparr>"
  let ?ys = "[\<lparr>path = ''later.lua'', content = ''third'', description = ''three''\<rparr>]"
  let ?base = "configDir demo_setup"
  let ?w0 = "fresh_world\<lparr>out := out fresh_world @ [''Creating configuration files...'']\<rparr>"
  have b: "blocked_files = ([] @ ?x # []) @ ?cf # ?ys" by (simp add: blocked_files_def)
  have ok: "fst (writeConfigFiles demo_host ?base ([] @ ?x # []) ?w0) = None"
    by (simp add: step_defs path_defs demo_defs io_defs)
  have bad: "fst (writeConfigFile demo_host ?base ?cf
                (snd (writeConfigFiles demo_host ?base ([] @ ?x # []) ?w0)))
             = Some (NotADirectory (join ?base ''init.lua''))"
    by (simp add: step_defs path_defs demo_defs io_defs)
  have last: "\<forall>y \<in> set []. join ?base (path y) \<noteq> join ?base (path ?x)" by simp
  have later: "resolve (root (snd (writeConfigFile demo_host ?base ?cf
                (snd (writeConfigFiles demo_host ?base ([] @ ?x # []) ?w0)))))
                (join ?base ''later.lua'') = None"
    by (simp add: step_defs path_defs demo_defs io_defs)
  note t = materialization_aborts_without_rollback[OF ok bad last, of ?ys, folded b]
  from t have c1: "createConfigFilesOf demo_host ?base blocked_files fresh_world =
      writeConfigFile demo_host ?base ?cf (snd (writeConfigFiles demo_host ?base ([] @ ?x # []) ?w0))"
    by (rule conjunct1)
  from t have c3: "resolve (root (snd (createConfigFilesOf demo_host ?base blocked_files fresh_world)))
           (join ?base (path ?x)) = Some (File (content ?x))"
    by (elim conjE)
  have "fst (createConfigFilesOf demo_host ?base blocked_files fresh_world)
     = Some (NotADirectory (join ?base ''init.lua''))"
    by (simp only: c1 bad)
  moreover have "resolve (root (snd (createConfigFilesOf demo_host ?base blocked_files fresh_world)))
        (join ?base ''later.lua'') = None"
    by (simp only: c1 later)
  moreover from c3 have "resolve (root (snd (createConfigFilesOf demo_host ?base blocked_files fresh_world)))
        (join ?base ''init.lua'') = Some (File ''first'')"
    by simp
  ultimately show ?thesis by blast
qed


section \<open>The whole run\<close>

lemma keepsD: "keeps P f \<Longrightarrow> P w \<Longrightarrow> P (snd (f w))"
  by (simp add: keeps_def)

lemma keeps_seq: "keeps P f \<Longrightarrow> keeps P g \<Longrightarrow> keeps P (seq f g)"
  by (auto simp: keeps_def snd_seq split: option.splits)

lemma keeps_skip: "keeps P skip"
  by (simp add: keeps_def skip_def)

lemma keeps_throw: "keeps P (throw e)"
  by (simp add: keeps_def throw_def)

lemma keeps_if: "keeps P f \<Longrightarrow> keeps P g \<Longrightarrow> keeps P (\<lambda>w. if b w then f w else g w)"
  by (simp add: keeps_def)

lemma keeps_log: "keeps (holds_at q v c) (log l)"
  by (simp add: keeps_def holds_at_def log_def)

lemma keeps_logs: "keeps (holds_at q v c) (logs ls)"
  by (simp add: keeps_def holds_at_def logs_eq)

lemma keeps_ensureDir: "\<not> prefix q p \<Longrightarrow> keeps (holds_at q v c) (ensureDir h p)"
  by (simp add: keeps_def holds_at_def ensureDir_frame ensureDir_others)

lemma keeps_writeTextFile: "\<not> prefix q p \<Longrightarrow> keeps (holds_at q v c) (writeTextFile h p t)"
  by (simp add: keeps_def holds_at_def writeTextFile_frame writeTextFile_others)

lemma keeps_checkPrerequisites: "keeps (holds_at q v c) (checkPrerequisites h)"
  by (simp add: keeps_def holds_at_def checkPrerequisites_eq)

lemma keeps_printUsageInstructions: "keeps (holds_at q v c) (printUsageInstructions s)"
  unfolding printUsageInstructions_def
  by (intro keeps_seq keeps_logs keeps_if keeps_log keeps_skip)

lemma apart_below:
  assumes "\<not> prefix q base" "\<not> prefix base q"
  shows "\<not> prefix q (base @ r)"
  using assms by (metis prefix_append prefix_same_cases prefixI)

lemma apart_butlast:
  assumes "\<not> prefix q base" "\<not> prefix base q"
  shows "\<not> prefix q (butlast (base @ r))"
proof (cases "r = []")
  case True
  with assms show ?thesis
    by (metis append_Nil2 butlast_append prefixeq_butlast prefix_order.trans)
next
  case False
  then have "butlast (base @ r) = base @ butlast r" by (simp add: butlast_append)
  with apart_below[OF assms] show ?thesis by simp
qed

lemma keeps_writeConfigFile:
  assumes "\<not> prefix q base" "\<not> prefix base q" and "prefix base (join base (path cf))"
  shows "keeps (holds_at q v c) (writeConfigFile h base cf)"
proof -
  from assms(3) obtain r where r: "join base (path cf) = base @ r" by (auto simp: prefix_def)
  show ?thesis
    unfolding writeConfigFile_def Let_def r
    using apart_below[OF assms(1,2), of r] apart_butlast[OF assms(1,2), of r]
    by (auto intro!: keeps_seq keeps_ensureDir keeps_writeTextFile keeps_log keeps_throw)
qed

lemma keeps_writeConfigFiles:
  assumes "\<not> prefix q base" "\<not> prefix base q"
    and "\<forall>cf \<in> set cfs. prefix base (join base (path cf))"
  shows "keeps (holds_at q v c) (writeConfigFiles h base cfs)"
  using assms(3)
  by (induction cfs) (auto intro!: keeps_seq keeps_skip keeps_writeConfigFile[OF assms(1,2)])

lemma getConfigFiles_inside:
  "\<forall>cf \<in> set (getConfigFiles h). prefix base (join base (path cf))"
  by (simp add: getConfigFiles_def path_defs)

lemma keeps_createConfigFiles:
  assumes "\<not> prefix q (configDir s)" "\<not> prefix (configDir s) q"
  shows "keeps (holds_at q v c) (createConfigFiles h s)"
  unfolding createConfigFiles_def createConfigFilesOf_def
  using apart_below[OF assms, of "[''undo'']"]
  by (auto intro!: keeps_seq keeps_log keeps_ensureDir keeps_writeConfigFiles[OF assms] getConfigFiles_inside
           simp: path_defs)


lemma keeps_sample_writes:
  assumes "clear_of_sample q (Some c')"
  shows "keeps (holds_at q v c)
     (seq (ensureDir h (join c' ''deno-sample-project''))
     (seq (writeTextFile h (join (join c' ''deno-sample-project'') ''deno.json'') t1)
     (seq (writeTextFile h (join (join c' ''deno-sample-project'') ''main.ts'') t2)
     (seq (writeTextFile h (join (join c' ''deno-sample-project'') ''main_test.ts'') t3)
     (seq (log l1) (seq (log l2) (log l3)))))))"
  using assms
  by (auto intro!: keeps_seq keeps_log keeps_ensureDir keeps_writeTextFile
           simp: path_defs clear_of_sample_def)

lemma keeps_createSampleDenoProject:
  assumes "sampleSkipped s \<or> clear_of_sample q c"
  shows "keeps (holds_at q v c) (createSampleDenoProject h s)"
proof (cases "sampleSkipped s")
  case True
  then show ?thesis by (simp add: createSampleDenoProject_def keeps_log)
next
  case False
  have "keeps (holds_at q v c)
     (\<lambda>w. case deno_cwd w of
                Inl e \<Rightarrow> (Some e, w)
              | Inr c \<Rightarrow>
                  (let projectDir = join c ''deno-sample-project'' in
                   seq (ensureDir h projectDir)
                  (seq (writeTextFile h (join projectDir ''deno.json'') (literal h ''deno.json''))
                  (seq (writeTextFile h (join projectDir ''main.ts'') (literal h ''main.ts''))
                  (seq (writeTextFile h (join projectDir ''main_test.ts'') (literal h ''main_test.ts''))
                  (seq (log (''Sample project created at: '' @ show_path projectDir))
                  (seq (log ''   You can test the setup by running:'')
                       (log (''   cd '' @ show_path projectDir @ '' && nvim main.ts'')))))))) w)"
    unfolding keeps_def
  proof (intro allI impI)
    fix w assume P: "holds_at q v c w"
    show "holds_at q v c (snd (case deno_cwd w of
                Inl e \<Rightarrow> (Some e, w)
              | Inr c \<Rightarrow>
                  (let projectDir = join c ''deno-sample-project'' in
                   seq (ensureDir h projectDir)
                  (seq (writeTextFile h (join projectDir ''deno.json'') (literal h ''deno.json''))
                  (seq (writeTextFile h (join projectDir ''main.ts'') (literal h ''main.ts''))
                  (seq (writeTextFile h (join projectDir ''main_test.ts'') (literal h ''main_test.ts''))
                  (seq (log (''Sample project created at: '' @ show_path projectDir))
                  (seq (log ''   You can test the setup by running:'')
                       (log (''   cd '' @ show_path projectDir @ '' && nvim main.ts'')))))))) w))"
    proof (cases "cwd w")
      case None
      with P show ?thesis by (simp add: deno_cwd_def)
    next
      case (Some c')
      with P have c: "c = Some c'" by (simp add: holds_at_def)
      with assms False have a: "clear_of_sample q (Some c')" by simp
      from keepsD[OF keeps_sample_writes[OF a] P] Some show ?thesis
        by (simp add: deno_cwd_def Let_def)
    qed
  qed
  with False show ?thesis
    by (auto simp: createSampleDenoProject_def intro!: keeps_seq keeps_log)
qed

lemma sample_clear:
  assumes "\<not> prefix (b @ [x]) c'" and "x \<noteq> ''deno-sample-project''"
    and "x \<notin> {''deno.json'', ''main.ts'', ''main_test.ts''}"
  shows "clear_of_sample (b @ [x]) (Some c')"
proof -
  have e: "\<And>f. c' @ [''deno-sample-project'', f] = (c' @ [''deno-sample-project'']) @ [f]" by simp
  have 1: "\<not> prefix (b @ [x]) (c' @ [''deno-sample-project''])"
    using assms by (simp add: prefix_snoc)
  with assms(3) show ?thesis
    unfolding clear_of_sample_def option.case e by (simp only: prefix_snoc) auto
qed

lemma run_steps_split:
  "run_steps h s w =
     (case checkPrerequisites h (w\<lparr>out := out w @ [''Neovim Deno TypeScript IDE Auto-Setup'',
                                                    replicate 50 CHR ''='']\<rparr>) of
        (Some e, w') \<Rightarrow> (Some e, w')
      | (None, w') \<Rightarrow> seq (backupExistingConfig h s) (install_steps h s) w')"
  unfolding run_steps_def install_steps_def by (simp add: seq_log seq_checkPrerequisites)

lemma checkPrerequisites_frame:
  "root (snd (checkPrerequisites h w)) = root w" "cwd (snd (checkPrerequisites h w)) = cwd w"
  by (simp_all add: checkPrerequisites_eq)


lemma cwd_run: "cwd (snd (run h s w)) = cwd (snd (run_steps h s w))"
  by (simp add: run_def split: prod.splits option.splits)

lemma keeps_install_steps:
  assumes "\<not> prefix q (configDir s)" "\<not> prefix (configDir s) q"
    and "sampleSkipped s \<or> clear_of_sample q c"
  shows "keeps (holds_at q v c) (install_steps h s)"
  unfolding install_steps_def
  by (intro keeps_seq keeps_ensureDir keeps_createConfigFiles keeps_createSampleDenoProject
            keeps_printUsageInstructions assms)


lemma graft_local:
  "resolve n base = Some m \<Longrightarrow> p \<noteq> [] \<Longrightarrow>
   resolve (graft (base @ p) v n) base = Some (graft p v m)"
proof (induction base arbitrary: n)
  case Nil
  then show ?case by simp
next
  case (Cons c bs)
  from Cons.prems obtain d k where n: "n = Dir d" and dc: "d c = Some k" and k: "resolve k bs = Some m"
    by (cases n) (auto split: option.splits)
  from Cons.IH[OF k Cons.prems(2)] Cons.prems(2) show ?case
    by (simp add: n dc)
qed

lemma mkdirp_local:
  "resolve n base = Some m \<Longrightarrow> mkdirp (base @ p) n = Some n' \<Longrightarrow>
   \<exists>m'. mkdirp p m = Some m' \<and> resolve n' base = Some m'"
proof (induction base arbitrary: n n')
  case Nil
  then show ?case by simp
next
  case (Cons c bs)
  from Cons.prems obtain d k where n: "n = Dir d" and dc: "d c = Some k" and k: "resolve k bs = Some m"
    by (cases n) (auto split: option.splits)
  from Cons.prems n dc obtain k' where k': "mkdirp (bs @ p) k = Some k'" and n': "n' = Dir (d(c \<mapsto> k'))"
    by (auto split: option.splits)
  from Cons.IH[OF k k'] show ?case by (simp add: n')
qed

lemma mkdirp_fresh:
  "mkdirp p n = Some n' \<Longrightarrow> resolve n p = None \<Longrightarrow> resolve n' p = Some (Dir Map.empty)"
proof (induction p arbitrary: n n')
  case Nil
  then show ?case by simp
next
  case (Cons c p)
  from Cons.prems obtain d where n: "n = Dir d" by (cases n) auto
  let ?m = "case d c of None \<Rightarrow> Dir Map.empty | Some m \<Rightarrow> m"
  from Cons.prems n obtain m' where m': "mkdirp p ?m = Some m'" and n': "n' = Dir (d(c \<mapsto> m'))"
    by (auto split: option.splits)
  show ?case
  proof (cases "d c")
    case None
    show ?thesis
    proof (cases p)
      case Nil
      with m' None show ?thesis by (simp add: n')
    next
      case (Cons c2 p2)
      have "resolve (Dir Map.empty) p = None" by (simp add: Cons)
      with Cons.IH[of "Dir Map.empty" m'] m' None show ?thesis by (simp add: n')
    qed
  next
    case (Some k)
    with Cons.prems n have "resolve k p = None" by simp
    with Cons.IH[of k m'] m' Some show ?thesis by (simp add: n')
  qed
qed

lemma ensureDir_fresh:
  "resolve (root w) p = None \<Longrightarrow> fst (ensureDir h p w) = None \<Longrightarrow>
   resolve (root (snd (ensureDir h p w))) p = Some (Dir Map.empty)"
  by (auto simp: ensureDir_def mkdirp_fresh split: option.splits if_splits)

lemma ensureDir_local:
  assumes eq: "resolve (root w1) base = resolve (root w2) base"
    and ex: "resolve (root w1) base \<noteq> None"
    and ok: "fst (ensureDir h (base @ p) w1) = None" "fst (ensureDir h (base @ p) w2) = None"
  shows "resolve (root (snd (ensureDir h (base @ p) w1))) base
       = resolve (root (snd (ensureDir h (base @ p) w2))) base"
proof -
  from ex obtain m where m1: "resolve (root w1) base = Some m" by auto
  with eq have m2: "resolve (root w2) base = Some m" by simp
  have r: "resolve (root w1) (base @ p) = resolve m p" "resolve (root w2) (base @ p) = resolve m p"
    by (simp_all add: resolve_append m1 m2)
  show ?thesis
  proof (cases "resolve m p")
    case (Some k)
    with ok r m1 m2 show ?thesis
      by (auto simp: ensureDir_def split: option.splits node.splits)
  next
    case None
    with ok r obtain n1 n2 where n: "mkdirp (base @ p) (root w1) = Some n1"
        "mkdirp (base @ p) (root w2) = Some n2"
      and s: "root (snd (ensureDir h (base @ p) w1)) = n1" "root (snd (ensureDir h (base @ p) w2)) = n2"
      by (auto simp: ensureDir_def split: option.splits if_splits)
    from mkdirp_local[OF m1 n(1)] mkdirp_local[OF m2 n(2)] show ?thesis by (auto simp: s)
  qed
qed

lemma writeTextFile_local:
  assumes eq: "resolve (root w1) base = resolve (root w2) base"
    and ex: "resolve (root w1) base \<noteq> None" and p: "p \<noteq> []"
    and ok: "fst (writeTextFile h (base @ p) t w1) = None" "fst (writeTextFile h (base @ p) t w2) = None"
  shows "resolve (root (snd (writeTextFile h (base @ p) t w1))) base
       = resolve (root (snd (writeTextFile h (base @ p) t w2))) base"
proof -
  from ex obtain m where m1: "resolve (root w1) base = Some m" by auto
  with eq have m2: "resolve (root w2) base = Some m" by simp
  from ok have "root (snd (writeTextFile h (base @ p) t w1)) = graft (base @ p) (Some (File t)) (root w1)"
    "root (snd (writeTextFile h (base @ p) t w2)) = graft (base @ p) (Some (File t)) (root w2)"
    by (auto simp: writeTextFile_def split: if_splits option.splits node.splits)
  with graft_local[OF m1 p] graft_local[OF m2 p] show ?thesis by simp
qed


lemma is_dir_exists: "is_dir x \<Longrightarrow> x \<noteq> None"
  by (cases x) auto

lemma writeConfigFile_steps:
  assumes "fst (writeConfigFile h base cf w) = None"
  shows "\<not> trailing_slash (path cf)"
    and "fst (ensureDir h (butlast (join base (path cf))) w) = None"
    and "fst (writeTextFile h (join base (path cf)) (content cf)
               (snd (ensureDir h (butlast (join base (path cf))) w))) = None"
    and "root (snd (writeConfigFile h base cf w)) =
         root (snd (writeTextFile h (join base (path cf)) (content cf)
               (snd (ensureDir h (butlast (join base (path cf))) w))))"
    and "cwd (snd (writeConfigFile h base cf w)) = cwd w"
  using assms
  by (auto simp: writeConfigFile_def Let_def fst_seq snd_seq throw_def log_def
                 ensureDir_others writeTextFile_others split: option.splits if_splits)

lemma writeConfigFile_local:
  assumes eq: "resolve (root w1) base = resolve (root w2) base"
    and ex: "is_dir (resolve (root w1) base)"
    and r: "join base (path cf) = base @ r" "r \<noteq> []"
    and ok: "fst (writeConfigFile h base cf w1) = None" "fst (writeConfigFile h base cf w2) = None"
  shows "resolve (root (snd (writeConfigFile h base cf w1))) base
       = resolve (root (snd (writeConfigFile h base cf w2))) base"
    and "is_dir (resolve (root (snd (writeConfigFile h base cf w1))) base)"
proof -
  have b: "butlast (join base (path cf)) = base @ butlast r" using r by (simp add: butlast_append)
  note s1 = writeConfigFile_steps[OF ok(1), unfolded b, unfolded r(1)]
  note s2 = writeConfigFile_steps[OF ok(2), unfolded b, unfolded r(1)]
  let ?e1 = "snd (ensureDir h (base @ butlast r) w1)"
  let ?e2 = "snd (ensureDir h (base @ butlast r) w2)"
  from ex have ne: "resolve (root w1) base \<noteq> None" by (rule is_dir_exists)
  have e: "resolve (root ?e1) base = resolve (root ?e2) base"
    by (rule ensureDir_local[OF eq ne s1(2) s2(2)])
  have d: "is_dir (resolve (root ?e1) base)" by (rule ensureDir_keeps_dirs[OF ex])
  then have ne': "resolve (root ?e1) base \<noteq> None" by (rule is_dir_exists)
  show "resolve (root (snd (writeConfigFile h base cf w1))) base
       = resolve (root (snd (writeConfigFile h base cf w2))) base"
    unfolding s1(4) s2(4) by (rule writeTextFile_local[OF e ne' r(2) s1(3) s2(3)])
  show "is_dir (resolve (root (snd (writeConfigFile h base cf w1))) base)"
    unfolding s1(4) by (rule writeTextFile_keeps_dirs[OF d])
qed

lemma writeConfigFiles_local:
  assumes "\<forall>cf \<in> set cfs. \<exists>r. r \<noteq> [] \<and> join base (path cf) = base @ r"
    and "resolve (root w1) base = resolve (root w2) base"
    and "is_dir (resolve (root w1) base)"
    and "fst (writeConfigFiles h base cfs w1) = None" "fst (writeConfigFiles h base cfs w2) = None"
  shows "resolve (root (snd (writeConfigFiles h base cfs w1))) base
       = resolve (root (snd (writeConfigFiles h base cfs w2))) base"
  using assms
proof (induction cfs arbitrary: w1 w2)
  case Nil
  then show ?case by (simp add: skip_def)
next
  case (Cons cf cfs)
  from Cons.prems(1) obtain r where r: "join base (path cf) = base @ r" "r \<noteq> []" by auto
  from Cons.prems(4,5) have ok: "fst (writeConfigFile h base cf w1) = None"
      "fst (writeConfigFile h base cf w2) = None"
    and rest: "fst (writeConfigFiles h base cfs (snd (writeConfigFile h base cf w1))) = None"
      "fst (writeConfigFiles h base cfs (snd (writeConfigFile h base cf w2))) = None"
    by (auto simp: fst_seq split: option.splits)
  note l = writeConfigFile_local[OF Cons.prems(2,3) r ok]
  from Cons.prems(1) have "\<forall>cf \<in> set cfs. \<exists>r. r \<noteq> [] \<and> join base (path cf) = base @ r" by simp
  from Cons.IH[OF this l rest] ok show ?case by (simp add: snd_seq)
qed

lemma getConfigFiles_plain:
  "\<forall>cf \<in> set (getConfigFiles h). \<exists>r. r \<noteq> [] \<and> join base (path cf) = base @ r"
  by (simp add: getConfigFiles_def path_defs)

lemma createConfigFiles_steps:
  assumes "fst (createConfigFiles h s w) = None"
  shows "fst (writeConfigFiles h (configDir s) (getConfigFiles h)
              (w\<lparr>out := out w @ [''Creating configuration files...'']\<rparr>)) = None"
    and "fst (ensureDir h (configDir s @ [''undo''])
              (snd (writeConfigFiles h (configDir s) (getConfigFiles h)
                     (w\<lparr>out := out w @ [''Creating configuration files...'']\<rparr>)))) = None"
    and "root (snd (createConfigFiles h s w)) =
         root (snd (ensureDir h (configDir s @ [''undo''])
              (snd (writeConfigFiles h (configDir s) (getConfigFiles h)
                     (w\<lparr>out := out w @ [''Creating configuration files...'']\<rparr>)))))"
  using createConfigFilesOf_parts[of h "configDir s" "getConfigFiles h" w] assms
  by (simp_all add: createConfigFiles_def path_defs)

lemma createConfigFiles_local:
  assumes eq: "resolve (root w1) (configDir s) = resolve (root w2) (configDir s)"
    and ex: "is_dir (resolve (root w1) (configDir s))"
    and ok: "fst (createConfigFiles h s w1) = None" "fst (createConfigFiles h s w2) = None"
  shows "resolve (root (snd (createConfigFiles h s w1))) (configDir s)
       = resolve (root (snd (createConfigFiles h s w2))) (configDir s)"
proof -
  let ?v1 = "w1\<lparr>out := out w1 @ [''Creating configuration files...'']\<rparr>"
  let ?v2 = "w2\<lparr>out := out w2 @ [''Creating configuration files...'']\<rparr>"
  note s1 = createConfigFiles_steps[OF ok(1)] and s2 = createConfigFiles_steps[OF ok(2)]
  have eq': "resolve (root ?v1) (configDir s) = resolve (root ?v2) (configDir s)"
    and ex': "is_dir (resolve (root ?v1) (configDir s))" using eq ex by simp_all
  have l: "resolve (root (snd (writeConfigFiles h (configDir s) (getConfigFiles h) ?v1))) (configDir s)
         = resolve (root (snd (writeConfigFiles h (configDir s) (getConfigFiles h) ?v2))) (configDir s)"
    by (rule writeConfigFiles_local[OF getConfigFiles_plain eq' ex' s1(1) s2(1)])
  have "is_dir (resolve (root (snd (writeConfigFiles h (configDir s) (getConfigFiles h) ?v1))) (configDir s))"
    by (rule writeConfigFiles_keeps_dirs[OF ex'])
  then have ne: "resolve (root (snd (writeConfigFiles h (configDir s) (getConfigFiles h) ?v1))) (configDir s) \<noteq> None"
    by (rule is_dir_exists)
  show ?thesis unfolding s1(3) s2(3)
    by (rule ensureDir_local[OF l ne s1(2) s2(2)])
qed

lemma gentle_cwd: "gentle f \<Longrightarrow> cwd (snd (f w)) = cwd w"
  by (simp add: gentle_def)

lemma gentle_dirs: "gentle f \<Longrightarrow> is_dir (resolve (root w) q) \<Longrightarrow> is_dir (resolve (root (snd (f w))) q)"
  by (simp add: gentle_def)

lemma gentle_cwd_ok: "gentle f \<Longrightarrow> cwd_ok w \<Longrightarrow> cwd_ok (snd (f w))"
  by (auto simp: gentle_def cwd_ok_def split: option.splits)

lemma gentle_seq: "gentle f \<Longrightarrow> gentle g \<Longrightarrow> gentle (seq f g)"
  by (auto simp: gentle_def snd_seq split: option.splits)

lemma gentle_skip: "gentle skip"
  by (simp add: gentle_def skip_def)

lemma gentle_throw: "gentle (throw e)"
  by (simp add: gentle_def throw_def)

lemma gentle_log: "gentle (log l)"
  by (simp add: gentle_def log_def)

lemma gentle_logs: "gentle (logs ls)"
  by (simp add: gentle_def logs_eq)

lemma gentle_if: "gentle f \<Longrightarrow> gentle g \<Longrightarrow> gentle (\<lambda>w. if b w then f w else g w)"
  by (simp add: gentle_def)

lemma gentle_ensureDir: "gentle (ensureDir h p)"
  by (simp add: gentle_def ensureDir_others ensureDir_keeps_dirs)

lemma gentle_writeTextFile: "gentle (writeTextFile h p t)"
  by (simp add: gentle_def writeTextFile_others writeTextFile_keeps_dirs)

lemma gentle_checkPrerequisites: "gentle (checkPrerequisites h)"
  by (simp add: gentle_def checkPrerequisites_eq)

lemma gentle_printUsageInstructions: "gentle (printUsageInstructions s)"
  unfolding printUsageInstructions_def
  by (intro gentle_seq gentle_logs gentle_if gentle_log gentle_skip)

lemma gentle_writeConfigFile: "gentle (writeConfigFile h base cf)"
  unfolding writeConfigFile_def Let_def
  by (auto intro!: gentle_seq gentle_ensureDir gentle_writeTextFile gentle_log gentle_throw)

lemma gentle_writeConfigFiles: "gentle (writeConfigFiles h base cfs)"
  by (induction cfs) (auto intro!: gentle_seq gentle_skip gentle_writeConfigFile)

lemma gentle_createConfigFiles: "gentle (createConfigFiles h s)"
  unfolding createConfigFiles_def createConfigFilesOf_def
  by (intro gentle_seq gentle_log gentle_ensureDir gentle_writeConfigFiles)

lemma gentle_case_cwd:
  assumes "\<And>c. gentle (g c)"
  shows "gentle (\<lambda>w. case deno_cwd w of Inl e \<Rightarrow> (Some e, w) | Inr c \<Rightarrow> g c w)"
  using assms by (auto simp: gentle_def split: sum.splits)

lemma gentle_createSampleDenoProject: "gentle (createSampleDenoProject h s)"
proof (cases "sampleSkipped s")
  case True
  then show ?thesis by (simp add: createSampleDenoProject_def gentle_log)
next
  case False
  then show ?thesis
    unfolding createSampleDenoProject_def Let_def
    by (simp only: if_False)
       (intro gentle_seq gentle_log gentle_case_cwd gentle_ensureDir gentle_writeTextFile)
qed

lemma gentle_install_steps: "gentle (install_steps h s)"
  unfolding install_steps_def
  by (intro gentle_seq gentle_ensureDir gentle_createConfigFiles gentle_createSampleDenoProject
            gentle_printUsageInstructions)

lemma graft_keeps_dirs_outside:
  assumes d: "is_dir (resolve n c)" and np: "\<not> prefix p c"
  shows "is_dir (resolve (graft p v n) c)"
proof (cases "prefix c p")
  case True
  with np have "strict_prefix c p" by auto
  from graft_keeps_ancestors[OF this d] show ?thesis .
next
  case False
  with np d show ?thesis by (simp add: resolve_graft_apart)
qed

lemma remove_recursive_keeps_cwd_ok:
  assumes "cwd_ok w"
  shows "cwd_ok (snd (remove_recursive h p w))"
  using assms
  by (auto simp: remove_recursive_def cwd_ok_def graft_keeps_dirs_outside split: option.splits)


lemma rename_failure: "fst (rename h src dst w) = Some e \<Longrightarrow> snd (rename h src dst w) = w"
  by (auto simp: rename_def split: if_splits option.splits)

lemma rename_success:
  assumes ok: "fst (rename h src dst w) = None" and ne: "src \<noteq> dst"
  shows "\<exists>n. resolve (root w) src = Some n
           \<and> root (snd (rename h src dst w)) = graft dst (Some n) (graft src None (root w))"
    and "cwd (snd (rename h src dst w)) =
           (case cwd w of None \<Rightarrow> None
            | Some c \<Rightarrow> if prefix src c then Some (dst @ drop (length src) c) else Some c)"
    and "\<not> is_dir (resolve (root w) dst)"
  using assms
  by (auto simp: rename_def split: if_splits option.splits elim: is_file.elims)

lemma rename_keeps_cwd_ok:
  assumes "cwd_ok w"
  shows "cwd_ok (snd (rename h src dst w))"
proof (cases "fst (rename h src dst w)")
  case (Some e)
  with assms show ?thesis by (simp add: rename_failure)
next
  case None
  show ?thesis
  proof (cases "src = dst")
    case True
    with None assms show ?thesis
      by (auto simp: rename_def split: if_splits option.splits)
  next
    case False
    note rs = rename_success[OF None False]
    note mv = rename_moves[OF None False]
    from rs(1) obtain n where n: "resolve (root w) src = Some n"
      and r: "root (snd (rename h src dst w)) = graft dst (Some n) (graft src None (root w))" by blast
    show ?thesis
    proof (cases "cwd w")
      case None
      then show ?thesis by (simp add: cwd_ok_def rs(2))
    next
      case (Some c)
      with assms have d: "is_dir (resolve (root w) c)" by (simp add: cwd_ok_def)
      show ?thesis
      proof (cases "prefix src c")
        case True
        then obtain r' where c: "c = src @ r'" by (auto simp: prefix_def)
        have "resolve (root (snd (rename h src dst w))) (dst @ r') = resolve (root w) (src @ r')"
          by (simp add: resolve_append mv(1))
        with d c Some show ?thesis by (simp add: cwd_ok_def rs(2))
      next
        case False
        from d False have d1: "is_dir (resolve (graft src None (root w)) c)"
          by (rule graft_keeps_dirs_outside)
        have "\<not> prefix dst c"
        proof
          assume p: "prefix dst c"
          show False
          proof (cases "dst = c")
            case True
            with rs(3) d show False by simp
          next
            case False
            with p have "strict_prefix dst c" by auto
            from resolve_below_file[OF rs(3) this] d show False by simp
          qed
        qed
        from graft_keeps_dirs_outside[OF d1 this] False Some show ?thesis
          by (simp add: cwd_ok_def rs(2) r)
      qed
    qed
  qed
qed

lemma log_keeps_cwd_ok: "cwd_ok w \<Longrightarrow> cwd_ok (snd (log l w))"
  by (simp add: cwd_ok_def log_def split: option.splits)

lemma backup_keeps_cwd_ok:
  assumes "cwd_ok w"
  shows "cwd_ok (snd (backupExistingConfig h s w))"
proof -
  have k: "keeps cwd_ok (log l)" "keeps cwd_ok (remove_recursive h p)" "keeps cwd_ok (rename h a b)"
    "keeps cwd_ok skip" for l p a b
    by (simp_all add: keeps_def log_keeps_cwd_ok remove_recursive_keeps_cwd_ok rename_keeps_cwd_ok skip_def)
  have "keeps cwd_ok (\<lambda>w. if exists (configDir s) w then
        seq (log ''Backing up existing Neovim configuration...'')
       (seq (\<lambda>w1. if exists (backupDir s) w1
                   then seq (log ''Removing old backup...'')
                            (remove_recursive h (backupDir s)) w1
                   else skip w1)
       (seq (rename h (configDir s) (backupDir s))
            (log (''Existing configuration backed up to: '' @ show_path (backupDir s))))) w
      else skip w)"
    by (intro keeps_if keeps_seq k)
  then have "keeps cwd_ok (backupExistingConfig h s)"
    by (simp add: backupExistingConfig_def[abs_def])
  from keepsD[OF this assms] show ?thesis .
qed

lemma backup_ignores_flag:
  "backupExistingConfig h (s\<lparr>sampleSkipped := k\<rparr>) = backupExistingConfig h s"
  by (rule ext) (simp add: backupExistingConfig_def cong: if_cong)

lemma backup_config_gone:
  assumes mk: "new_NeovimSetup h = Inr s" and ok: "fst (backupExistingConfig h s w) = None"
  shows "resolve (root (snd (backupExistingConfig h s w))) (configDir s) = None"
proof (cases "exists (configDir s) w")
  case True
  from backup_moves(2)[OF mk True ok] show ?thesis .
next
  case False
  then show ?thesis by (simp add: backup_absent exists_def)
qed

lemma cwd_outside_missing:
  assumes "cwd_ok w" and "resolve (root w) q = None" and "cwd w = Some c"
  shows "\<not> prefix q c"
proof
  assume "prefix q c"
  from resolve_prefix_None[OF assms(2) this] assms(1,3) show False by (simp add: cwd_ok_def)
qed

lemma backup_cwd_outside_backup:
  assumes mk: "new_NeovimSetup h = Inr s" and cok: "cwd_ok w"
    and out: "\<forall>c. cwd w = Some c \<longrightarrow> \<not> prefix (configDir s) c"
    and ex: "exists (configDir s) w" and ok: "fst (backupExistingConfig h s w) = None"
    and c: "cwd (snd (backupExistingConfig h s w)) = Some c"
  shows "\<not> prefix (backupDir s) c"
proof -
  from constructed_dirs[OF mk] obtain b where
    cd: "configDir s = b @ [''nvim'']" and bd: "backupDir s = b @ [''nvim.backup'']" by blast
  have ne: "configDir s \<noteq> backupDir s" by (simp add: cd bd)
  define w0 where "w0 = w\<lparr>out := out w @ [''Backing up existing Neovim configuration...'']\<rparr>"
  define w1 where "w1 = (if exists (backupDir s) w
                then snd (remove_recursive h (backupDir s) (w0\<lparr>out := out w0 @ [''Removing old backup...'']\<rparr>))
                else w0)"
  note bs = backup_success[OF ex ok, folded w0_def, folded w1_def]
  have w1c: "cwd w1 = Some c' \<Longrightarrow> \<not> prefix (backupDir s) c' \<and> \<not> prefix (configDir s) c'" for c'
  proof (cases "exists (backupDir s) w")
    case True
    assume "cwd w1 = Some c'"
    with True out bs(1) show ?thesis
      by (auto simp: w1_def w0_def remove_recursive_def split: if_splits option.splits)
  next
    case False
    assume a: "cwd w1 = Some c'"
    with False have cw: "cwd w = Some c'" by (simp add: w1_def w0_def)
    from False have "resolve (root w) (backupDir s) = None" by (simp add: exists_def)
    from cwd_outside_missing[OF cok this cw] out cw show ?thesis by simp
  qed
  from c have "cwd (snd (rename h (configDir s) (backupDir s) w1)) = Some c" by (simp add: bs(4))
  with rename_success(2)[OF bs(2) ne] w1c show ?thesis
    by (auto split: option.splits if_splits)
qed

lemma install_steps_success:
  assumes "fst (install_steps h s w) = None"
  shows "fst (ensureDir h (configDir s) w) = None"
    and "fst (createConfigFiles h s (snd (ensureDir h (configDir s) w))) = None"
    and "snd (install_steps h s w) =
         snd (seq (createSampleDenoProject h s) (printUsageInstructions s)
               (snd (createConfigFiles h s (snd (ensureDir h (configDir s) w)))))"
  using assms
  by (auto simp: install_steps_def fst_seq snd_seq split: option.splits)

lemma createConfigFiles_ignores_flag:
  "createConfigFiles h (s\<lparr>sampleSkipped := k\<rparr>) = createConfigFiles h s"
  by (simp add: createConfigFiles_def)

lemma install_config_tree:
  assumes mk: "new_NeovimSetup h = Inr s"
    and gone: "resolve (root w1) (configDir s) = None" "resolve (root w2) (configDir s) = None"
    and out: "\<forall>c. cwd w1 = Some c \<longrightarrow> \<not> prefix (configDir s) c"
             "\<forall>c. cwd w2 = Some c \<longrightarrow> \<not> prefix (configDir s) c"
    and ok: "fst (install_steps h (s\<lparr>sampleSkipped := k1\<rparr>) w1) = None"
            "fst (install_steps h (s\<lparr>sampleSkipped := k2\<rparr>) w2) = None"
  shows "resolve (root (snd (install_steps h (s\<lparr>sampleSkipped := k1\<rparr>) w1))) (configDir s)
       = resolve (root (snd (install_steps h (s\<lparr>sampleSkipped := k2\<rparr>) w2))) (configDir s)"
    and "is_dir (resolve (root (snd (install_steps h (s\<lparr>sampleSkipped := k1\<rparr>) w1))) (configDir s))"
proof -
  from constructed_dirs[OF mk] obtain b where
    cd: "configDir s = b @ [''nvim'']" by blast
  have tail: "resolve (root (snd (install_steps h (s\<lparr>sampleSkipped := k\<rparr>) w))) (configDir s)
        = resolve (root (snd (createConfigFiles h s (snd (ensureDir h (configDir s) w))))) (configDir s)"
    if o: "\<forall>c. cwd w = Some c \<longrightarrow> \<not> prefix (configDir s) c"
      and i: "fst (install_steps h (s\<lparr>sampleSkipped := k\<rparr>) w) = None" for k w
  proof -
    let ?s = "s\<lparr>sampleSkipped := k\<rparr>"
    let ?wc = "snd (createConfigFiles h s (snd (ensureDir h (configDir s) w)))"
    note st = install_steps_success[OF i, simplified, unfolded createConfigFiles_ignores_flag]
    have cw: "cwd ?wc = cwd w"
      by (simp add: gentle_cwd[OF gentle_createConfigFiles] ensureDir_others)
    have cl: "sampleSkipped ?s \<or> clear_of_sample (configDir s) (cwd w)"
    proof (cases "cwd w")
      case None
      then show ?thesis by (simp add: clear_of_sample_def)
    next
      case (Some c)
      with o have "\<not> prefix (b @ [''nvim'']) c" by (simp add: cd)
      from sample_clear[OF this] Some show ?thesis by (simp add: cd)
    qed
    have "keeps (holds_at (configDir s) (resolve (root ?wc) (configDir s)) (cwd w))
            (seq (createSampleDenoProject h ?s) (printUsageInstructions ?s))"
      by (intro keeps_seq keeps_createSampleDenoProject keeps_printUsageInstructions cl)
    from keepsD[OF this, of ?wc] cw show ?thesis by (simp add: holds_at_def st(3))
  qed
  let ?e1 = "snd (ensureDir h (configDir s) w1)"
  let ?e2 = "snd (ensureDir h (configDir s) w2)"
  note s1 = install_steps_success[OF ok(1), simplified, unfolded createConfigFiles_ignores_flag]
  note s2 = install_steps_success[OF ok(2), simplified, unfolded createConfigFiles_ignores_flag]
  have f1: "resolve (root ?e1) (configDir s) = Some (Dir Map.empty)"
    by (rule ensureDir_fresh[OF gone(1) s1(1)])
  have f2: "resolve (root ?e2) (configDir s) = Some (Dir Map.empty)"
    by (rule ensureDir_fresh[OF gone(2) s2(1)])
  have eq: "resolve (root ?e1) (configDir s) = resolve (root ?e2) (configDir s)" by (simp add: f1 f2)
  have d: "is_dir (resolve (root ?e1) (configDir s))" by (simp add: f1)
  from createConfigFiles_local[OF eq d s1(2) s2(2)] tail[OF out(1) ok(1)] tail[OF out(2) ok(2)]
  show "resolve (root (snd (install_steps h (s\<lparr>sampleSkipped := k1\<rparr>) w1))) (configDir s)
       = resolve (root (snd (install_steps h (s\<lparr>sampleSkipped := k2\<rparr>) w2))) (configDir s)"
    by simp
  from gentle_dirs[OF gentle_createConfigFiles d, of h s] tail[OF out(1) ok(1)]
  show "is_dir (resolve (root (snd (install_steps h (s\<lparr>sampleSkipped := k1\<rparr>) w1))) (configDir s))"
    by simp
qed

lemma run_steps_success:
  assumes "fst (run_steps h s w) = None"
  shows "fst (checkPrerequisites h (w\<lparr>out := out w @ [''Neovim Deno TypeScript IDE Auto-Setup'',
                                                    replicate 50 CHR ''='']\<rparr>)) = None"
    and "fst (backupExistingConfig h s (snd (checkPrerequisites h
               (w\<lparr>out := out w @ [''Neovim Deno TypeScript IDE Auto-Setup'',
                                   replicate 50 CHR ''='']\<rparr>)))) = None"
    and "fst (install_steps h s (snd (backupExistingConfig h s (snd (checkPrerequisites h
               (w\<lparr>out := out w @ [''Neovim Deno TypeScript IDE Auto-Setup'',
                                   replicate 50 CHR ''='']\<rparr>)))))) = None"
    and "snd (run_steps h s w) =
         snd (install_steps h s (snd (backupExistingConfig h s (snd (checkPrerequisites h
               (w\<lparr>out := out w @ [''Neovim Deno TypeScript IDE Auto-Setup'',
                                   replicate 50 CHR ''='']\<rparr>))))))"
  using assms
  by (auto simp: run_steps_split fst_seq snd_seq split: prod.splits option.splits)

lemma run_Finished:
  "fst (run h s w) = Finished \<Longrightarrow> fst (run_steps h s w) = None"
  "fst (run h s w) = Finished \<Longrightarrow> snd (run h s w) = snd (run_steps h s w)"
  by (auto simp: run_def split: prod.splits option.splits)

lemma run_success_facts:
  assumes mk: "new_NeovimSetup h = Inr s" and cok: "cwd_ok w"
    and ok: "fst (run_steps h (s\<lparr>sampleSkipped := k\<rparr>) w) = None"
  shows "\<exists>wb. resolve (root wb) (configDir s) = None
            \<and> (\<forall>c. cwd wb = Some c \<longrightarrow> \<not> prefix (configDir s) c)
            \<and> cwd_ok wb
            \<and> fst (install_steps h (s\<lparr>sampleSkipped := k\<rparr>) wb) = None
            \<and> snd (run_steps h (s\<lparr>sampleSkipped := k\<rparr>) w) = snd (install_steps h (s\<lparr>sampleSkipped := k\<rparr>) wb)
            \<and> (is_dir (resolve (root w) (configDir s)) \<longrightarrow>
                 resolve (root wb) (backupDir s) = resolve (root w) (configDir s))
            \<and> (is_dir (resolve (root w) (configDir s)) \<longrightarrow>
                (\<forall>c. cwd w = Some c \<longrightarrow> \<not> prefix (configDir s) c) \<longrightarrow>
                (\<forall>c. cwd wb = Some c \<longrightarrow> \<not> prefix (backupDir s) c))"
proof -
  let ?w0 = "w\<lparr>out := out w @ [''Neovim Deno TypeScript IDE Auto-Setup'', replicate 50 CHR ''='']\<rparr>"
  let ?w3 = "snd (checkPrerequisites h ?w0)"
  let ?wb = "snd (backupExistingConfig h s ?w3)"
  note rs = run_steps_success[OF ok, unfolded backup_ignores_flag]
  have w3: "root ?w3 = root w" "cwd ?w3 = cwd w" by (simp_all add: checkPrerequisites_frame)
  from cok have cok3: "cwd_ok ?w3" unfolding cwd_ok_def w3 .
  have cokb: "cwd_ok ?wb" by (rule backup_keeps_cwd_ok[OF cok3])
  have gone: "resolve (root ?wb) (configDir s) = None" by (rule backup_config_gone[OF mk rs(2)])
  have outc: "\<forall>c. cwd ?wb = Some c \<longrightarrow> \<not> prefix (configDir s) c"
    using cwd_outside_missing[OF cokb gone] by blast
  have mv: "resolve (root ?wb) (backupDir s) = resolve (root w) (configDir s)"
    if d: "is_dir (resolve (root w) (configDir s))"
  proof -
    from d have "exists (configDir s) ?w3" by (simp add: exists_def w3 is_dir_exists)
    from backup_moves(1)[OF mk this rs(2)] show ?thesis by (simp add: w3)
  qed
  have outb: "\<forall>c. cwd ?wb = Some c \<longrightarrow> \<not> prefix (backupDir s) c"
    if d: "is_dir (resolve (root w) (configDir s))"
      and o: "\<forall>c. cwd w = Some c \<longrightarrow> \<not> prefix (configDir s) c"
  proof -
    from d have ex: "exists (configDir s) ?w3" by (simp add: exists_def w3 is_dir_exists)
    from o have o3: "\<forall>c. cwd ?w3 = Some c \<longrightarrow> \<not> prefix (configDir s) c" by (simp add: w3)
    from backup_cwd_outside_backup[OF mk cok3 o3 ex rs(2)] show ?thesis by blast
  qed
  from gone outc cokb rs(3) rs(4) mv outb show ?thesis by blast
qed

lemmas run_defs = run_def run_steps_def checkPrerequisites_eq backupExistingConfig_def
  createConfigFiles_def getConfigFiles_def createSampleDenoProject_def printUsageInstructions_def
  logs_eq demo_literal_def quiet_setup_def





text \<open>
  Claim C3, amended. Let a first run succeed, and let a second run start on the file tree
  the first one left and succeed too. If the second run has the working directory the first
  one ended with, or a working directory that is a directory of the tree and does not lie
  inside the target directory, or skips the sample project, then the target directory after
  the second run is the tree it was after the first run, and the backup directory after the
  second run is exactly that tree.
\<close>

theorem second_run_repeats_first:
  assumes mk: "new_NeovimSetup h = Inr s" and cok: "cwd_ok w"
    and r1: "fst (run h (s\<lparr>sampleSkipped := k1\<rparr>) w) = Finished"
    and tree: "root w2 = root (snd (run h (s\<lparr>sampleSkipped := k1\<rparr>) w))"
    and c2: "cwd w2 = cwd (snd (run h (s\<lparr>sampleSkipped := k1\<rparr>) w))
           \<or> (cwd_ok w2 \<and> (k2 \<or> (\<forall>c. cwd w2 = Some c \<longrightarrow> \<not> prefix (configDir s) c)))"
    and r2: "fst (run h (s\<lparr>sampleSkipped := k2\<rparr>) w2) = Finished"
  shows "resolve (root (snd (run h (s\<lparr>sampleSkipped := k2\<rparr>) w2))) (configDir s)
         = resolve (root (snd (run h (s\<lparr>sampleSkipped := k1\<rparr>) w))) (configDir s)
       \<and> resolve (root (snd (run h (s\<lparr>sampleSkipped := k2\<rparr>) w2))) (backupDir s)
         = resolve (root (snd (run h (s\<lparr>sampleSkipped := k1\<rparr>) w))) (configDir s)
       \<and> is_dir (resolve (root (snd (run h (s\<lparr>sampleSkipped := k1\<rparr>) w))) (configDir s))"
proof -
  let ?s1 = "s\<lparr>sampleSkipped := k1\<rparr>" and ?s2 = "s\<lparr>sampleSkipped := k2\<rparr>"
  define u where "u = snd (run h ?s1 w)"
  define v where "v = snd (run h ?s2 w2)"
  from constructed_dirs[OF mk] obtain b where
    cd: "configDir s = b @ [''nvim'']" and bd: "backupDir s = b @ [''nvim.backup'']" by blast
  note ok1 = run_Finished(1)[OF r1]
  have u: "u = snd (run_steps h ?s1 w)" by (simp add: u_def run_Finished(2)[OF r1])
  note ok2 = run_Finished(1)[OF r2]
  have v: "v = snd (run_steps h ?s2 w2)" by (simp add: v_def run_Finished(2)[OF r2])
  have ru: "root w2 = root u" by (simp add: tree u_def)
  from run_success_facts[OF mk cok ok1] obtain wb where
    b1: "resolve (root wb) (configDir s) = None"
      "\<forall>c. cwd wb = Some c \<longrightarrow> \<not> prefix (configDir s) c"
      "cwd_ok wb" "fst (install_steps h ?s1 wb) = None"
      "u = snd (install_steps h ?s1 wb)"
    unfolding u by blast
  have cu: "cwd u = cwd wb" by (simp add: b1(5) gentle_cwd[OF gentle_install_steps])
  have coku: "cwd_ok u" unfolding b1(5) by (rule gentle_cwd_ok[OF gentle_install_steps b1(3)])
  from c2 have c2': "cwd_ok w2 \<and> (k2 \<or> (\<forall>c. cwd w2 = Some c \<longrightarrow> \<not> prefix (configDir s) c))"
  proof
    assume "cwd w2 = cwd (snd (run h ?s1 w))"
    then have e: "cwd w2 = cwd u" by (simp add: u_def)
    from coku have "cwd_ok w2" unfolding cwd_ok_def e ru .
    with b1(2) cu e show ?thesis by simp
  next
    assume "cwd_ok w2 \<and> (k2 \<or> (\<forall>c. cwd w2 = Some c \<longrightarrow> \<not> prefix (configDir s) c))"
    then show ?thesis .
  qed
  then have coku': "cwd_ok w2" by simp
  from run_success_facts[OF mk coku' ok2] obtain wc where
    b2: "resolve (root wc) (configDir s) = None"
      "\<forall>c. cwd wc = Some c \<longrightarrow> \<not> prefix (configDir s) c"
      "fst (install_steps h ?s2 wc) = None"
      "v = snd (install_steps h ?s2 wc)"
      "is_dir (resolve (root u) (configDir s)) \<longrightarrow>
                 resolve (root wc) (backupDir s) = resolve (root u) (configDir s)"
      "is_dir (resolve (root u) (configDir s)) \<longrightarrow>
                (\<forall>c. cwd w2 = Some c \<longrightarrow> \<not> prefix (configDir s) c) \<longrightarrow>
                (\<forall>c. cwd wc = Some c \<longrightarrow> \<not> prefix (backupDir s) c)"
    unfolding v ru by blast
  note t = install_config_tree[OF mk b1(1) b2(1) b1(2) b2(2) b1(4) b2(3), folded b1(5) b2(4)]
  from t(2) b2(5) have mv: "resolve (root wc) (backupDir s) = resolve (root u) (configDir s)" by simp
  have ap: "\<not> prefix (backupDir s) (configDir ?s2)" "\<not> prefix (configDir ?s2) (backupDir s)"
    by (simp_all add: cd bd)
  have cl: "sampleSkipped ?s2 \<or> clear_of_sample (backupDir s) (cwd wc)"
  proof (cases k2)
    case True
    then show ?thesis by simp
  next
    case False
    with c2' t(2) b2(6) have outb: "\<forall>c. cwd wc = Some c \<longrightarrow> \<not> prefix (backupDir s) c" by simp
    show ?thesis
    proof (cases "cwd wc")
      case None
      then show ?thesis by (simp add: clear_of_sample_def)
    next
      case (Some c)
      with outb have "\<not> prefix (b @ [''nvim.backup'']) c" by (simp add: bd)
      from sample_clear[OF this] Some show ?thesis by (simp add: bd)
    qed
  qed
  have "holds_at (backupDir s) (resolve (root wc) (backupDir s)) (cwd wc) wc" by (simp add: holds_at_def)
  from keepsD[OF keeps_install_steps[OF ap cl] this]
  have "resolve (root v) (backupDir s) = resolve (root wc) (backupDir s)"
    by (simp add: holds_at_def b2(4))
  with mv t show ?thesis
    by (simp add: u_def[symmetric] v_def[symmetric])
qed

lemma first_run_eval:
  "(\<lambda>(oc, u). oc = Finished
      \<and> resolve (root u) (configDir demo_setup @ [''init.lua'']) = Some (File ''text of init.lua'')
      \<and> resolve (root u) (configDir demo_setup @ [''deno-sample-project'']) = None
      \<and> is_dir (resolve (root u) [''home'', ''u''])
      \<and> is_dir (resolve (root u) (configDir demo_setup)))
   (run demo_host quiet_setup old_config_world)"
  by (simp add: run_defs step_defs path_defs demo_defs io_defs)

lemma elsewhere_eval:
  "(\<lambda>(oc, v). oc = Finished
      \<and> resolve (root v) (backupDir demo_setup @ [''a.txt'']) = None)
   (run demo_host demo_setup restarted_elsewhere)"
  by (simp add: run_defs step_defs path_defs demo_defs io_defs restarted_elsewhere_def)

lemma inside_eval:
  "(\<lambda>(oc, v). oc = Finished
      \<and> is_dir (resolve (root v) (backupDir demo_setup @ [''deno-sample-project''])))
   (run demo_host demo_setup restarted_inside_target)"
  by (simp add: run_defs step_defs path_defs demo_defs io_defs restarted_inside_target_def)

lemma first_run_facts:
  "cwd_ok old_config_world"
  "fst (run demo_host quiet_setup old_config_world) = Finished"
  "resolve (root (snd (run demo_host quiet_setup old_config_world))) (configDir demo_setup @ [''init.lua''])
     = Some (File ''text of init.lua'')"
  "resolve (root (snd (run demo_host quiet_setup old_config_world)))
     (configDir demo_setup @ [''deno-sample-project'']) = None"
  "cwd_ok restarted_elsewhere"
  "cwd_ok restarted_inside_target"
  "root restarted_elsewhere = root (snd (run demo_host quiet_setup old_config_world))"
  "root restarted_inside_target = root (snd (run demo_host quiet_setup old_config_world))"
  using first_run_eval
  by (simp_all add: case_prod_unfold cwd_ok_def restarted_elsewhere_def restarted_inside_target_def
        old_config_world_def world_of_def dir_of_def)

theorem second_run_repeats_first_witness:
  "cwd_ok old_config_world
   \<and> fst (run demo_host quiet_setup old_config_world) = Finished
   \<and> root restarted_elsewhere = root (snd (run demo_host quiet_setup old_config_world))
   \<and> cwd_ok restarted_elsewhere
   \<and> fst (run demo_host demo_setup restarted_elsewhere) = Finished
   \<and> resolve (root (snd (run demo_host demo_setup restarted_elsewhere)))
        (backupDir demo_setup @ [''init.lua'']) = Some (File ''text of init.lua'')
   \<and> resolve (root (snd (run demo_host demo_setup restarted_elsewhere)))
        (configDir demo_setup @ [''init.lua'']) = Some (File ''text of init.lua'')
   \<and> resolve (root (snd (run demo_host demo_setup restarted_elsewhere)))
        (backupDir demo_setup @ [''a.txt'']) = None"
proof -
  let ?u = "snd (run demo_host quiet_setup old_config_world)"
  let ?v = "snd (run demo_host demo_setup restarted_elsewhere)"
  have s: "demo_setup\<lparr>sampleSkipped := True\<rparr> = quiet_setup"
    "demo_setup\<lparr>sampleSkipped := False\<rparr> = demo_setup"
    by (simp_all add: quiet_setup_def demo_setup_def)
  have r2: "fst (run demo_host demo_setup restarted_elsewhere) = Finished"
    and gone: "resolve (root ?v) (backupDir demo_setup @ [''a.txt'']) = None"
    using elsewhere_eval by (simp_all add: case_prod_unfold)
  have c2: "cwd restarted_elsewhere = cwd ?u
      \<or> (cwd_ok restarted_elsewhere
         \<and> (False \<or> (\<forall>c. cwd restarted_elsewhere = Some c \<longrightarrow> \<not> prefix (configDir demo_setup) c)))"
    using first_run_facts(5) by (simp add: restarted_elsewhere_def demo_setup_def)
  note t = second_run_repeats_first[OF demo_constructed first_run_facts(1), of True restarted_elsewhere False,
             unfolded s, OF first_run_facts(2) first_run_facts(7) c2 r2]
  from t have a: "resolve (root ?v) (configDir demo_setup) = resolve (root ?u) (configDir demo_setup)"
    and b: "resolve (root ?v) (backupDir demo_setup) = resolve (root ?u) (configDir demo_setup)"
    by simp_all
  have "resolve (root ?v) (backupDir demo_setup @ q) = resolve (root ?u) (configDir demo_setup @ q)"
    "resolve (root ?v) (configDir demo_setup @ q) = resolve (root ?u) (configDir demo_setup @ q)" for q
    by (simp_all add: resolve_append a b)
  with first_run_facts r2 gone show ?thesis by simp
qed

text \<open>
  Claim C3 as stated fails when the second run is started from inside the target
  directory: the working directory follows the rename to the backup path, and the sample
  project of the second run is created inside the backup directory, which then holds more
  than the target directory held after the first run.
\<close>

theorem sample_project_joins_second_backup:
  "cwd_ok old_config_world
   \<and> fst (run demo_host quiet_setup old_config_world) = Finished
   \<and> root restarted_inside_target = root (snd (run demo_host quiet_setup old_config_world))
   \<and> cwd_ok restarted_inside_target
   \<and> fst (run demo_host demo_setup restarted_inside_target) = Finished
   \<and> resolve (root (snd (run demo_host demo_setup restarted_inside_target))) (backupDir demo_setup)
       \<noteq> resolve (root (snd (run demo_host quiet_setup old_config_world))) (configDir demo_setup)"
proof -
  let ?u = "snd (run demo_host quiet_setup old_config_world)"
  let ?v = "snd (run demo_host demo_setup restarted_inside_target)"
  have r2: "fst (run demo_host demo_setup restarted_inside_target) = Finished"
    and d: "is_dir (resolve (root ?v) (backupDir demo_setup @ [''deno-sample-project'']))"
    using inside_eval by (simp_all add: case_prod_unfold)
  from is_dir_exists[OF d] first_run_facts(4)
  have "resolve (root ?v) (backupDir demo_setup @ [''deno-sample-project''])
      \<noteq> resolve (root ?u) (configDir demo_setup @ [''deno-sample-project''])" by simp
  then have "resolve (root ?v) (backupDir demo_setup) \<noteq> resolve (root ?u) (configDir demo_setup)"
    by (auto simp: resolve_append)
  with first_run_facts r2 show ?thesis by simp
qed

end
